theory Spec2Isabelle
  imports Complex_Main
begin

section \<open>Python values, objects and the heap\<close>

text \<open>
  The functions of \<^verbatim>\<open>litellm/llms/base_llm/base_utils.py\<close> work on Python dicts and
  lists, which are mutable objects with an identity: \<^verbatim>\<open>update_refs\<close> assigns into
  dicts, keeps a set of \<^verbatim>\<open>id(obj)\<close> and may meet the same object along two paths or
  along a cycle. The model therefore has an explicit heap. An address is the identity of a
  dict or list; the heap is the list of all objects, an object's address being its index, so
  that allocation appends to the heap. A value is an immutable atom or a reference to a
  heap object. Dicts are association lists in insertion order with string keys (the keys of
  a JSON document); floating-point atoms are left out, the code never inspects them.
\<close>

type_synonym addr = nat

datatype pyval =
    VNone
  | VBool bool
  | VInt int
  | VStr string
  | VRef addr

type_synonym pydict = "(string \<times> pyval) list"

datatype pyobj =
    ODict pydict
  | OList "pyval list"

type_synonym heap = "pyobj list"

text \<open>
  Exceptions are values. An exception raised by the interpreter carries its class only
  (and the key, for \<^verbatim>\<open>KeyError\<close>); \<open>TypeError\<close> carries a message, which is exact
  for the one \<^verbatim>\<open>raise\<close> of the source and a short tag where the interpreter raises.
  \<open>Unmodelled\<close> marks a use of a library feature outside the modelled fragment (see
  \<open>str_format\<close>); it is not a Python exception and no statement below reads it as one.
\<close>

datatype pyerr =
    AttributeError
  | KeyError string
  | IndexError
  | ValueError
  | OverflowError
  | TypeError string
  | OtherException string
  | Unmodelled

definition heap_get :: "heap \<Rightarrow> addr \<Rightarrow> pyobj option" where
  "heap_get h a = (if a < length h then Some (h ! a) else None)"

text \<open>\<^verbatim>\<open>d[k] = v\<close>: an existing key keeps its place, a new key goes last.\<close>

fun dict_set :: "string \<Rightarrow> pyval \<Rightarrow> pydict \<Rightarrow> pydict" where
  "dict_set k v [] = [(k, v)]"
| "dict_set k v ((k', v') # kvs) =
     (if k' = k then (k, v) # kvs else (k', v') # dict_set k v kvs)"

text \<open>\<^verbatim>\<open>x.get(k)\<close>: only a dict has the method; a missing key gives \<^verbatim>\<open>None\<close>.\<close>

definition py_get :: "heap \<Rightarrow> pyval \<Rightarrow> string \<Rightarrow> pyerr + pyval" where
  "py_get h x k =
     (case x of
        VRef a \<Rightarrow>
          (case heap_get h a of
             Some (ODict kvs) \<Rightarrow> Inr (case map_of kvs k of None \<Rightarrow> VNone | Some v \<Rightarrow> v)
           | _ \<Rightarrow> Inl AttributeError)
      | _ \<Rightarrow> Inl AttributeError)"

text \<open>
  \<^verbatim>\<open>x[k]\<close> with a string \<open>k\<close>: \<^verbatim>\<open>KeyError\<close> on a dict without the key,
  \<^verbatim>\<open>TypeError\<close> on a list, a string or any other atom.
\<close>

definition py_subscript :: "heap \<Rightarrow> pyval \<Rightarrow> string \<Rightarrow> pyerr + pyval" where
  "py_subscript h x k =
     (case x of
        VRef a \<Rightarrow>
          (case heap_get h a of
             Some (ODict kvs) \<Rightarrow>
               (case map_of kvs k of None \<Rightarrow> Inl (KeyError k) | Some v \<Rightarrow> Inr v)
           | _ \<Rightarrow> Inl (TypeError ''indices must be integers''))
      | _ \<Rightarrow> Inl (TypeError ''not subscriptable''))"

section \<open>Strings: \<^verbatim>\<open>split\<close> and \<^verbatim>\<open>format\<close>\<close>

text \<open>
  \<^verbatim>\<open>s.split(sep)\<close> for a one-character separator. The result is never empty:
  \<^verbatim>\<open>"".split("/") == [""]\<close> and \<^verbatim>\<open>"a/".split("/") == ["a", ""]\<close>.
\<close>

fun split_on :: "char \<Rightarrow> string \<Rightarrow> string list" where
  "split_on sep [] = [[]]"
| "split_on sep (c # cs) =
     (if c = sep then [] # split_on sep cs
      else (case split_on sep cs of
              [] \<Rightarrow> [[c]]
            | w # ws \<Rightarrow> (c # w) # ws))"

text \<open>
  \<open>str_format\<close> is \<^verbatim>\<open>template.format(model=name)\<close> for a string \<open>name\<close>, on the
  templates whose fields are plain names. The template is read left to
  right: \<^verbatim>\<open>{{\<close> and \<^verbatim>\<open>}}\<close> are the escaped braces, a single \<^verbatim>\<open>}\<close> and a
  \<^verbatim>\<open>{\<close> that is never closed raise \<^verbatim>\<open>ValueError\<close>, the field \<^verbatim>\<open>{model}\<close> is
  replaced by \<open>name\<close>. No positional argument and no other keyword is passed, so an empty
  or numeric field raises \<^verbatim>\<open>IndexError\<close> and any other plain name raises
  \<^verbatim>\<open>KeyError\<close>. The first failure wins. Fields with a conversion, a format
  specification, an attribute or an index (\<^verbatim>\<open>!\<close>, \<^verbatim>\<open>:\<close>, \<^verbatim>\<open>.\<close>, \<^verbatim>\<open>[\<close>), with a
  nested brace, with a non-ASCII character or beginning with more than 18 digits (where the
  parser of field numbers gives up) are outside the modelled fragment.
\<close>

definition is_digit :: "char \<Rightarrow> bool" where
  "is_digit c = (c \<in> set ''0123456789'')"

definition plain_field :: "string \<Rightarrow> bool" where
  "plain_field f = (\<forall>c \<in> set f. c \<notin> set ''{!:.[]'' \<and> of_char c < (128::nat))"

definition lookup_field :: "string \<Rightarrow> string \<Rightarrow> pyerr + string" where
  "lookup_field f name =
     (if \<not> plain_field f \<or> 18 < length (takeWhile is_digit f) then Inl Unmodelled
      else if f = ''model'' then Inr name
      else if list_all is_digit f then Inl IndexError
      else Inl (KeyError f))"

function str_format :: "string \<Rightarrow> string \<Rightarrow> pyerr + string" where
  "str_format [] name = Inr []"
| "str_format (c # cs) name =
     (if c = CHR ''{'' then
        (if cs \<noteq> [] \<and> hd cs = CHR ''{'' then
           (case str_format (tl cs) name of Inl e \<Rightarrow> Inl e | Inr r \<Rightarrow> Inr (CHR ''{'' # r))
         else if dropWhile (\<lambda>x. x \<noteq> CHR ''}'') cs = [] then Inl ValueError
         else
           (case lookup_field (takeWhile (\<lambda>x. x \<noteq> CHR ''}'') cs) name of
              Inl e \<Rightarrow> Inl e
            | Inr v \<Rightarrow>
                (case str_format (tl (dropWhile (\<lambda>x. x \<noteq> CHR ''}'') cs)) name of
                   Inl e \<Rightarrow> Inl e
                 | Inr r \<Rightarrow> Inr (v @ r))))
      else if c = CHR ''}'' then
        (if cs \<noteq> [] \<and> hd cs = CHR ''}'' then
           (case str_format (tl cs) name of Inl e \<Rightarrow> Inl e | Inr r \<Rightarrow> Inr (CHR ''}'' # r))
         else Inl ValueError)
      else
        (case str_format cs name of Inl e \<Rightarrow> Inl e | Inr r \<Rightarrow> Inr (c # r)))"
  by pat_completeness auto
termination
proof (relation "measure (\<lambda>(t, name). length t)")
  show "wf (measure (\<lambda>(t, name). length t))" by simp
next
  fix c :: char and cs name :: string
  assume "cs \<noteq> [] \<and> hd cs = CHR ''{''"
  then show "((tl cs, name), (c # cs, name)) \<in> measure (\<lambda>(t, name). length t)"
    by simp
next
  fix c :: char and cs name :: string and x2 :: string
  have "length (dropWhile (\<lambda>x. x \<noteq> CHR ''}'') cs) \<le> length cs"
    by (rule length_dropWhile_le)
  then show "((tl (dropWhile (\<lambda>x. x \<noteq> CHR ''}'') cs), name), (c # cs, name))
      \<in> measure (\<lambda>(t, name). length t)"
    by simp
next
  fix c :: char and cs name :: string
  assume "cs \<noteq> [] \<and> hd cs = CHR ''}''"
  then show "((tl cs, name), (c # cs, name)) \<in> measure (\<lambda>(t, name). length t)"
    by simp
next
  fix c :: char and cs name :: string
  show "((cs, name), (c # cs, name)) \<in> measure (\<lambda>(t, name). length t)"
    by simp
qed

section \<open>The reference rewriter: \<^verbatim>\<open>update_refs\<close>\<close>

text \<open>
  \<^verbatim>\<open>ref_template.format(model=model_name)\<close> is a call into the string library. The
  rewriter takes it as a parameter: \<open>fmt\<close> is the method \<^verbatim>\<open>format\<close> bound to the
  template in scope, a function from the component name to the formatted string or to the
  exception raised. Every statement about the rewriter below holds for every such
  function, so for every template; the examples run with \<open>str_format\<close>.
\<close>

type_synonym formatter = "string \<Rightarrow> pyerr + string"

text \<open>
  The body of \<^verbatim>\<open>if "$ref" in obj:\<close> (lines 106 to 109), on the items of the dict
  \<open>obj\<close>. \<^verbatim>\<open>ref_path.split("/")\<close> exists only for a string: any other value of
  \<^verbatim>\<open>"$ref"\<close> raises \<^verbatim>\<open>AttributeError\<close>. A failure of \<^verbatim>\<open>format\<close> is raised
  before the assignment, so the dict is then unchanged.
\<close>

definition model_name :: "string \<Rightarrow> string" where
  "model_name ref_path = last (split_on CHR ''/'' ref_path)"

definition rewrite_ref :: "formatter \<Rightarrow> pydict \<Rightarrow> pyerr + pydict" where
  "rewrite_ref fmt obj =
     (case map_of obj ''$ref'' of
        None \<Rightarrow> Inr obj
      | Some (VStr ref_path) \<Rightarrow>
          (case fmt (model_name ref_path) of
             Inl e \<Rightarrow> Inl e
           | Inr s \<Rightarrow> Inr (dict_set ''$ref'' (VStr s) obj))
      | Some _ \<Rightarrow> Inl AttributeError)"

text \<open>
  The entries pushed by the two \<^verbatim>\<open>for\<close> loops: the values that are a dict or a list,
  in iteration order, each with the path extended by its key or index.
\<close>

datatype path_elem = Key string | Index nat

type_synonym path = "path_elem list"

fun dict_children :: "path \<Rightarrow> pydict \<Rightarrow> (addr \<times> path) list" where
  "dict_children path [] = []"
| "dict_children path ((k, v) # kvs) =
     (case v of
        VRef a \<Rightarrow> (a, path @ [Key k]) # dict_children path kvs
      | _ \<Rightarrow> dict_children path kvs)"

fun list_children :: "path \<Rightarrow> nat \<Rightarrow> pyval list \<Rightarrow> (addr \<times> path) list" where
  "list_children path i [] = []"
| "list_children path i (item # items) =
     (case item of
        VRef a \<Rightarrow> (a, path @ [Index i]) # list_children path (Suc i) items
      | _ \<Rightarrow> list_children path (Suc i) items)"

text \<open>
  The \<^verbatim>\<open>while stack:\<close> loop (lines 97 to 118). The Python list \<open>stack\<close> is kept
  with its last element first, so that \<^verbatim>\<open>stack.pop()\<close> takes the head and the
  children, appended one by one, arrive reversed on top. \<open>visited\<close> is the set of
  \<^verbatim>\<open>id(obj)\<close>. \<open>trace\<close> is a ghost variable: the loop never reads it; it records
  the objects that get past the \<open>visited\<close> test, in the order in which
  \<^verbatim>\<open>visited.add(obj_id)\<close> runs. An address outside the heap does not occur in a
  Python heap; the loop treats it as an object that is neither a dict nor a list.

  The loop may in principle run forever, so it is a partial function into \<open>option\<close>:
  \<open>None\<close> is "does not return". The result is the final heap, the final
  \<open>visited\<close>, the trace, and either the exception that left the loop or \<open>()\<close>.
\<close>

type_synonym walk_result = "heap \<times> addr set \<times> addr list \<times> (pyerr + unit)"

partial_function (option) update_refs_loop ::
  "formatter \<Rightarrow> heap \<Rightarrow> (addr \<times> path) list \<Rightarrow> addr set \<Rightarrow> addr list \<Rightarrow> walk_result option"
where
  "update_refs_loop fmt h stack visited trace =
     (if stack = [] then Some (h, visited, trace, Inr ())
      else
        let obj_id = fst (hd stack); path = snd (hd stack); stack = tl stack in
        if obj_id \<in> visited then update_refs_loop fmt h stack visited trace
        else
          let visited = insert obj_id visited; trace = trace @ [obj_id] in
          (case heap_get h obj_id of
             Some (ODict obj) \<Rightarrow>
               (case rewrite_ref fmt obj of
                  Inl e \<Rightarrow> Some (h, visited, trace, Inl e)
                | Inr obj' \<Rightarrow>
                    update_refs_loop fmt (h[obj_id := ODict obj'])
                      (rev (dict_children path obj') @ stack) visited trace)
           | Some (OList obj) \<Rightarrow>
               update_refs_loop fmt h
                 (rev (list_children path 0 obj) @ stack) visited trace
           | None \<Rightarrow> update_refs_loop fmt h stack visited trace))"

text \<open>
  \<^verbatim>\<open>update_refs(schema)\<close>. Only dicts and lists are ever pushed by the loop, so an atom
  can be on the stack only as the root: then the single iteration marks it visited and
  does nothing else (its \<^verbatim>\<open>id\<close> is never compared with another).
\<close>

definition update_refs :: "formatter \<Rightarrow> heap \<Rightarrow> pyval \<Rightarrow> walk_result option" where
  "update_refs fmt h schema =
     (case schema of
        VRef a \<Rightarrow> update_refs_loop fmt h [(a, [])] {} []
      | _ \<Rightarrow> Some (h, {}, [], Inr ()))"

section \<open>The normalizer\<close>

text \<open>
  \<^verbatim>\<open>copy.deepcopy\<close> is library code. On dicts, lists and atoms it returns a new object
  graph with the shape of the graph reachable from its argument, sharing and cycles
  included, in which no dict or list is shared with the original; atoms are immutable and
  returned as they are. The model allocates a copy of every object of the heap, the copy of
  the object at \<open>a\<close> at address \<open>a + length h\<close>, with every reference moved by the
  same offset. Copies of objects that the argument does not reach are unreachable from the
  result (garbage that the real function never allocates; no program can observe it).
  The recursion limit of the interpreter is not modelled.
\<close>

fun shift_val :: "nat \<Rightarrow> pyval \<Rightarrow> pyval" where
  "shift_val n (VRef a) = VRef (a + n)"
| "shift_val n v = v"

fun shift_obj :: "nat \<Rightarrow> pyobj \<Rightarrow> pyobj" where
  "shift_obj n (ODict kvs) = ODict (map (\<lambda>(k, v). (k, shift_val n v)) kvs)"
| "shift_obj n (OList xs) = OList (map (shift_val n) xs)"

definition deepcopy :: "heap \<Rightarrow> pyval \<Rightarrow> heap \<times> pyval" where
  "deepcopy h x =
     (case x of
        VRef a \<Rightarrow> (h @ map (shift_obj (length h)) h, VRef (a + length h))
      | _ \<Rightarrow> (h, x))"

text \<open>
  \<^verbatim>\<open>_dict_to_response_format_helper\<close> (lines 84 to 122). The parameter \<open>format\<close>
  is the method \<^verbatim>\<open>str.format\<close> called with the one keyword \<^verbatim>\<open>model\<close>: template
  first, then the name. The result is the heap after the call and the returned value or
  the exception; \<open>None\<close> if the call does not return.
\<close>

definition dict_to_response_format_helper ::
  "(string \<Rightarrow> formatter) \<Rightarrow> heap \<Rightarrow> pyval \<Rightarrow> string option \<Rightarrow>
   (heap \<times> (pyerr + pyval)) option"
where
  "dict_to_response_format_helper format h response_format ref_template =
     (case ref_template of
        None \<Rightarrow> Some (h, Inr response_format)
      | Some t \<Rightarrow>
          (case py_get h response_format ''type'' of
             Inl e \<Rightarrow> Some (h, Inl e)
           | Inr ty \<Rightarrow>
               if ty = VStr ''json_schema'' then
                 (case deepcopy h response_format of
                    (h1, modified_format) \<Rightarrow>
                      (case py_subscript h1 modified_format ''json_schema'' of
                         Inl e \<Rightarrow> Some (h1, Inl e)
                       | Inr js \<Rightarrow>
                           (case py_subscript h1 js ''schema'' of
                              Inl e \<Rightarrow> Some (h1, Inl e)
                            | Inr schema \<Rightarrow>
                                (case update_refs (format t) h1 schema of
                                   None \<Rightarrow> None
                                 | Some (h2, visited, trace, Inl e) \<Rightarrow> Some (h2, Inl e)
                                 | Some (h2, visited, trace, Inr u) \<Rightarrow>
                                     Some (h2, Inr modified_format)))))
               else Some (h, Inr response_format)))"

text \<open>
  \<^verbatim>\<open>type_to_response_format_param\<close> (lines 125 to 158). The argument is classified as
  the code classifies it: \<^verbatim>\<open>None\<close>; a dict, given by its address; a class for which
  \<^verbatim>\<open>is_basemodel_type\<close> holds; or any other object, given by the text \<^verbatim>\<open>str\<close> makes
  of it, which is all the code uses. The two schema generators of a model class belong to
  pydantic and openai; they are fields of the class description.
\<close>

record basemodel_type =
  cls_name :: string
  model_json_schema :: "string \<Rightarrow> heap \<Rightarrow> heap \<times> (pyerr + pyval)"
  to_strict_json_schema :: "heap \<Rightarrow> heap \<times> (pyerr + pyval)"

datatype response_format_arg =
    RFNone
  | RFDict addr
  | RFBaseModel basemodel_type
  | RFOther string

definition envelope :: "heap \<Rightarrow> pyval \<Rightarrow> string \<Rightarrow> heap \<times> pyval" where
  "envelope h schema name =
     (h @ [ODict [(''schema'', schema), (''name'', VStr name), (''strict'', VBool True)],
           ODict [(''type'', VStr ''json_schema''), (''json_schema'', VRef (length h))]],
      VRef (Suc (length h)))"

definition type_to_response_format_param ::
  "(string \<Rightarrow> formatter) \<Rightarrow> heap \<Rightarrow> response_format_arg \<Rightarrow> string option \<Rightarrow>
   (heap \<times> (pyerr + pyval)) option"
where
  "type_to_response_format_param format h response_format ref_template =
     (case response_format of
        RFNone \<Rightarrow> Some (h, Inr VNone)
      | RFDict a \<Rightarrow> dict_to_response_format_helper format h (VRef a) ref_template
      | RFOther s \<Rightarrow> Some (h, Inl (TypeError (''Unsupported response_format type - '' @ s)))
      | RFBaseModel cls \<Rightarrow>
          (case (case ref_template of
                   Some t \<Rightarrow> model_json_schema cls t h
                 | None \<Rightarrow> to_strict_json_schema cls h) of
             (h1, Inl e) \<Rightarrow> Some (h1, Inl e)
           | (h1, Inr schema) \<Rightarrow>
               (case envelope h1 schema (cls_name cls) of
                  (h2, v) \<Rightarrow> Some (h2, Inr v))))"

section \<open>Role remapping\<close>

text \<open>
  \<^verbatim>\<open>map_developer_role_to_system_role\<close> (lines 161 to 173). A message is a dict;
  \<^verbatim>\<open>m["role"]\<close> and \<^verbatim>\<open>m["content"]\<close> raise \<^verbatim>\<open>KeyError\<close> on a missing key.
  \<open>remap_loop\<close> is the \<^verbatim>\<open>for\<close> loop with its accumulator \<open>new_messages\<close>.
\<close>

type_synonym message = pydict

fun remap_loop :: "message list \<Rightarrow> message list \<Rightarrow> pyerr + message list" where
  "remap_loop new_messages [] = Inr new_messages"
| "remap_loop new_messages (m # messages) =
     (case map_of m ''role'' of
        None \<Rightarrow> Inl (KeyError ''role'')
      | Some role \<Rightarrow>
          if role = VStr ''developer'' then
            (case map_of m ''content'' of
               None \<Rightarrow> Inl (KeyError ''content'')
             | Some content \<Rightarrow>
                 remap_loop
                   (new_messages @ [[(''role'', VStr ''system''), (''content'', content)]])
                   messages)
          else remap_loop (new_messages @ [m]) messages)"

definition map_developer_role_to_system_role :: "message list \<Rightarrow> pyerr + message list" where
  "map_developer_role_to_system_role messages = remap_loop [] messages"

section \<open>Rerank cost\<close>

text \<open>
  \<^verbatim>\<open>BaseLLMModelInfo.get_rerank_cost\<close> (lines 50 to 81). A price is a Python number,
  an \<^verbatim>\<open>int\<close> or a \<^verbatim>\<open>float\<close>; the type \<open>'f\<close> stands for the floats, \<open>0\<close> for
  \<^verbatim>\<open>0.0\<close>, and the rounded product of a float and a converted integer is the parameter
  \<open>fmul\<close>. What is modelled exactly is the conversion that \<^verbatim>\<open>float * int\<close> performs
  first: it raises \<^verbatim>\<open>OverflowError\<close> when the integer rounds to a magnitude of
  \<open>2 ^ 1024\<close> or more, whatever the float is.

  \<^verbatim>\<open>get_model_info\<close> lives in \<^verbatim>\<open>litellm.utils\<close>; it is a parameter, returning the
  model's information or the exception (of class \<^verbatim>\<open>Exception\<close>) it raises. In the
  information, a key is absent (\<open>None\<close>), present with the value \<^verbatim>\<open>None\<close>
  (\<open>Some None\<close>) or present with a number.
\<close>

datatype 'f pynum = PInt int | PFloat 'f

type_synonym 'f model_info = "string \<Rightarrow> 'f pynum option option"

definition int_to_float_ok :: "int \<Rightarrow> bool" where
  "int_to_float_ok n = (\<bar>n\<bar> < 2 ^ 1024 - 2 ^ 970)"

fun py_mul :: "('f \<Rightarrow> int \<Rightarrow> 'f) \<Rightarrow> 'f pynum \<Rightarrow> int \<Rightarrow> pyerr + 'f pynum" where
  "py_mul fmul (PInt a) n = Inr (PInt (a * n))"
| "py_mul fmul (PFloat x) n =
     (if int_to_float_ok n then Inr (PFloat (fmul x n)) else Inl OverflowError)"

definition get_rerank_cost ::
  "(string \<Rightarrow> string option \<Rightarrow> pyerr + 'f model_info) \<Rightarrow> ('f \<Rightarrow> int \<Rightarrow> 'f) \<Rightarrow>
   string \<Rightarrow> int \<Rightarrow> string option \<Rightarrow> pyerr + ('f::zero) pynum \<times> 'f pynum"
where
  "get_rerank_cost get_model_info fmul model num_queries custom_llm_provider =
     (let model_info =
            (case get_model_info model custom_llm_provider of
               Inl e \<Rightarrow> None
             | Inr info \<Rightarrow> Some info)
      in
        case model_info of
          None \<Rightarrow> Inr (PFloat 0, PFloat 0)
        | Some info \<Rightarrow>
            (case info ''input_cost_per_query'' of
               None \<Rightarrow> Inr (PFloat 0, PFloat 0)
             | Some None \<Rightarrow> Inr (PFloat 0, PFloat 0)
             | Some (Some price) \<Rightarrow>
                 (case py_mul fmul price num_queries of
                    Inl e \<Rightarrow> Inl e
                  | Inr prompt_cost \<Rightarrow> Inr (prompt_cost, PFloat 0))))"

section \<open>Reachability\<close>

text \<open>
  The schema graph: the members of an object, the addresses among them, and the set of
  addresses reachable from a root along them. An address outside the heap has no members.
\<close>

fun members :: "pyobj \<Rightarrow> pyval list" where
  "members (ODict kvs) = map snd kvs"
| "members (OList xs) = xs"

fun ref_addrs :: "pyval list \<Rightarrow> addr list" where
  "ref_addrs [] = []"
| "ref_addrs (v # vs) = (case v of VRef a \<Rightarrow> a # ref_addrs vs | _ \<Rightarrow> ref_addrs vs)"

definition edges :: "heap \<Rightarrow> addr \<Rightarrow> addr set" where
  "edges h a = (case heap_get h a of None \<Rightarrow> {} | Some obj \<Rightarrow> set (ref_addrs (members obj)))"

inductive_set reach :: "heap \<Rightarrow> addr \<Rightarrow> addr set" for h :: heap and root :: addr where
  root: "root \<in> reach h root"
| step: "a \<in> reach h root \<Longrightarrow> b \<in> edges h a \<Longrightarrow> b \<in> reach h root"

text \<open>
  Two notions for the proofs about the loop. \<open>unvisited\<close> counts the heap addresses not
  yet in \<open>visited\<close>; it is what decreases when the loop pushes. \<open>visit_of\<close> relates
  the object at an address before the traversal to the object there after one visit that
  did not raise: a dict is the result of \<open>rewrite_ref\<close>, anything else is as it was.
\<close>

definition unvisited :: "heap \<Rightarrow> addr set \<Rightarrow> nat" where
  "unvisited h visited = card ({a. a < length h} - visited)"

definition visit_of :: "formatter \<Rightarrow> pyobj option \<Rightarrow> pyobj option \<Rightarrow> bool" where
  "visit_of fmt before after =
     (case before of
        Some (ODict obj) \<Rightarrow> (\<exists>obj'. rewrite_ref fmt obj = Inr obj' \<and> after = Some (ODict obj'))
      | _ \<Rightarrow> after = before)"

section \<open>Sample data\<close>

text \<open>
  Concrete inputs for the examples below. \<open>cyclic_heap\<close> is a dict that contains itself
  and a list; the list contains the dict and itself. \<open>priced_info\<close> is a small pricing
  table in the role of \<^verbatim>\<open>get_model_info\<close>: a model priced with the float \<open>0.5\<close>, one
  priced with the integer \<open>3\<close>, one whose price is \<^verbatim>\<open>None\<close>, one without the pricing
  key, and an exception for every other name. \<open>exact_fmul\<close> stands in for the product of
  a float and an integer on the rationals.
\<close>

definition cyclic_heap :: heap where
  "cyclic_heap =
     [ODict [(''$ref'', VStr ''#/$defs/Node''), (''items'', VRef 1), (''self'', VRef 0)],
      OList [VRef 0, VRef 1, VStr ''leaf'']]"

definition priced_info :: "string \<Rightarrow> string option \<Rightarrow> pyerr + rat model_info" where
  "priced_info model provider =
     (if model = ''rerank-float'' then Inr (Map.empty(''input_cost_per_query'' \<mapsto> Some (PFloat (1 / 2))))
      else if model = ''rerank-int'' then Inr (Map.empty(''input_cost_per_query'' \<mapsto> Some (PInt 3)))
      else if model = ''rerank-free'' then Inr (Map.empty(''input_cost_per_query'' \<mapsto> None))
      else if model = ''chat-only'' then Inr Map.empty
      else Inl (OtherException ''This model isn't mapped yet''))"

definition exact_fmul :: "rat \<Rightarrow> int \<Rightarrow> rat" where
  "exact_fmul x n = x * of_int n"

text \<open>
  \<open>example_heap\<close> is the response format
  \<^verbatim>\<open>{"type":"json_schema","json_schema":{"schema":{"$ref":"#/defs/Foo"}}}\<close>.
  \<open>nested_heap\<close> is a schema whose reference sits two levels below the root, among
  other keys. In \<open>shared_heap\<close> the objects 1 and 2 are equal in content and both hold
  the same child 3, while 4 is a separate object equal in content to 3.
\<close>

definition example_heap :: heap where
  "example_heap =
     [ODict [(''type'', VStr ''json_schema''), (''json_schema'', VRef 1)],
      ODict [(''schema'', VRef 2)],
      ODict [(''$ref'', VStr ''#/defs/Foo'')]]"

definition nested_heap :: heap where
  "nested_heap =
     [ODict [(''type'', VStr ''object''), (''properties'', VRef 1)],
      ODict [(''user'', VRef 2)],
      ODict [(''title'', VStr ''User''), (''$ref'', VStr ''#/$defs/User''), (''anyOf'', VRef 3)],
      OList [VStr ''null'']]"

definition shared_heap :: heap where
  "shared_heap =
     [ODict [(''left'', VRef 1), (''right'', VRef 2), (''twin'', VRef 4)],
      ODict [(''items'', VRef 3)],
      ODict [(''items'', VRef 3)],
      ODict [(''$ref'', VStr ''#/defs/Foo'')],
      ODict [(''$ref'', VStr ''#/defs/Foo'')]]"

text \<open>
  \<open>fixed_point_heap\<close> is \<open>example_heap\<close> with the reference \<^verbatim>\<open>Foo\<close>, which the
  template \<^verbatim>\<open>{model}\<close> maps to itself.
\<close>

definition fixed_point_heap :: heap where
  "fixed_point_heap =
     [ODict [(''type'', VStr ''json_schema''), (''json_schema'', VRef 1)],
      ODict [(''schema'', VRef 2)],
      ODict [(''$ref'', VStr ''Foo'')]]"

text \<open>
  Three heaps on which the traversal raises before it is done. In \<open>mixed_heap\<close> the root
  holds a node with a string reference and, after it, a node whose reference is the integer
  5. In \<open>blocked_heap\<close> two parents share the child 4 and a third member of the root has
  the integer reference. In \<open>twin_heap\<close> the two members of the root are distinct
  objects with the same content, the integer reference.
\<close>

definition mixed_heap :: heap where
  "mixed_heap =
     [ODict [(''a'', VRef 1), (''b'', VRef 2)],
      ODict [(''$ref'', VStr ''x/Foo'')],
      ODict [(''$ref'', VInt 5)]]"

definition blocked_heap :: heap where
  "blocked_heap =
     [ODict [(''left'', VRef 1), (''right'', VRef 2), (''bad'', VRef 3)],
      ODict [(''items'', VRef 4)],
      ODict [(''items'', VRef 4)],
      ODict [(''$ref'', VInt 5)],
      ODict [(''$ref'', VStr ''#/defs/Foo'')]]"

definition twin_heap :: heap where
  "twin_heap =
     [ODict [(''x'', VRef 1), (''y'', VRef 2)],
      ODict [(''$ref'', VInt 5)],
      ODict [(''$ref'', VInt 5)]]"

section \<open>The normalizer's dispatch\<close>

text \<open>
  C5: when no reference template is supplied, the normalizer returns the mapping it was
  given: the same object (the same address), on an unchanged heap. The same holds, with
  any template, for a mapping whose \<^verbatim>\<open>"type"\<close> is not \<^verbatim>\<open>"json_schema"\<close>.
\<close>

theorem passthrough_by_reference:
  "type_to_response_format_param format h (RFDict m) None = Some (h, Inr (VRef m)) \<and>
   dict_to_response_format_helper format h (VRef m) None = Some (h, Inr (VRef m)) \<and>
   (\<forall>obj. heap_get h m = Some (ODict obj) \<longrightarrow>
          map_of obj ''type'' \<noteq> Some (VStr ''json_schema'') \<longrightarrow>
          type_to_response_format_param format h (RFDict m) ref_template = Some (h, Inr (VRef m)))"
  by (cases ref_template)
     (auto simp: type_to_response_format_param_def dict_to_response_format_helper_def
        py_get_def split: option.splits)

theorem passthrough_by_reference_witness:
  "heap_get [ODict [(''type'', VStr ''text'')]] 0 = Some (ODict [(''type'', VStr ''text'')]) \<and>
   map_of [(''type'', VStr ''text'')] ''type'' \<noteq> Some (VStr ''json_schema'') \<and>
   type_to_response_format_param str_format [ODict [(''type'', VStr ''text'')]] (RFDict 0)
       (Some ''provider/{model}'')
     = Some ([ODict [(''type'', VStr ''text'')]], Inr (VRef 0))"
  using passthrough_by_reference
    [of str_format "[ODict [(''type'', VStr ''text'')]]" 0 "Some ''provider/{model}''"]
  by (simp add: heap_get_def)

text \<open>
  C7: for \<^verbatim>\<open>None\<close> the normalizer returns \<^verbatim>\<open>None\<close>. For an argument that is neither
  \<^verbatim>\<open>None\<close>, nor a mapping, nor a model class, it raises at once (the heap is as it was)
  a \<^verbatim>\<open>TypeError\<close> whose message ends with the text of the offending value.
\<close>

theorem unsupported_type_error:
  "type_to_response_format_param format h RFNone ref_template = Some (h, Inr VNone) \<and>
   (\<forall>rf. rf \<noteq> RFNone \<longrightarrow> (\<forall>a. rf \<noteq> RFDict a) \<longrightarrow> (\<forall>cls. rf \<noteq> RFBaseModel cls) \<longrightarrow>
      (\<exists>s. rf = RFOther s \<and>
           type_to_response_format_param format h rf ref_template
             = Some (h, Inl (TypeError (''Unsupported response_format type - '' @ s)))))"
proof -
  have "type_to_response_format_param format h RFNone ref_template = Some (h, Inr VNone)"
    by (simp add: type_to_response_format_param_def)
  moreover have "\<exists>s. rf = RFOther s \<and>
           type_to_response_format_param format h rf ref_template
             = Some (h, Inl (TypeError (''Unsupported response_format type - '' @ s)))"
    if "rf \<noteq> RFNone" "\<forall>a. rf \<noteq> RFDict a" "\<forall>cls. rf \<noteq> RFBaseModel cls" for rf
    using that by (cases rf) (simp_all add: type_to_response_format_param_def)
  ultimately show ?thesis by blast
qed

theorem unsupported_type_error_witness:
  "type_to_response_format_param str_format [] (RFOther ''42'') None
     = Some ([], Inl (TypeError ''Unsupported response_format type - 42''))"
  using unsupported_type_error [of str_format "[]" None] by auto

section \<open>Role remapping: the result\<close>

text \<open>
  The loop on well-typed messages: every message has a role, and a developer message has
  a content (both keys are required by the message types). The result extends the
  accumulator by one message per input message.
\<close>

lemma remap_loop_typed:
  assumes "\<forall>m \<in> set messages. \<exists>role. map_of m ''role'' = Some role \<and>
             (role = VStr ''developer'' \<longrightarrow> map_of m ''content'' \<noteq> None)"
  shows "\<exists>out. remap_loop new_messages messages = Inr (new_messages @ out) \<and>
           length out = length messages \<and>
           (\<forall>i < length messages.
              if map_of (messages ! i) ''role'' = Some (VStr ''developer'')
              then \<exists>content. map_of (messages ! i) ''content'' = Some content \<and>
                     out ! i = [(''role'', VStr ''system''), (''content'', content)]
              else out ! i = messages ! i)"
  using assms
proof (induction messages arbitrary: new_messages)
  case Nil
  then show ?case by simp
next
  case (Cons m messages)
  from Cons.prems obtain role where role: "map_of m ''role'' = Some role"
    and content: "role = VStr ''developer'' \<longrightarrow> map_of m ''content'' \<noteq> None"
    by auto
  define m' where "m' = (if role = VStr ''developer''
      then [(''role'', VStr ''system''), (''content'', the (map_of m ''content''))] else m)"
  have step: "remap_loop new_messages (m # messages) = remap_loop (new_messages @ [m']) messages"
    using role content by (auto simp: m'_def)
  from Cons.IH[of "new_messages @ [m']"] Cons.prems
  obtain out where out: "remap_loop (new_messages @ [m']) messages = Inr ((new_messages @ [m']) @ out)"
    "length out = length messages"
    "\<forall>i < length messages.
              if map_of (messages ! i) ''role'' = Some (VStr ''developer'')
              then \<exists>content. map_of (messages ! i) ''content'' = Some content \<and>
                     out ! i = [(''role'', VStr ''system''), (''content'', content)]
              else out ! i = messages ! i"
    by auto
  have head: "if map_of m ''role'' = Some (VStr ''developer'')
      then \<exists>content. map_of m ''content'' = Some content \<and>
             m' = [(''role'', VStr ''system''), (''content'', content)]
      else m' = m"
    using role content by (auto simp: m'_def)
  show ?case
  proof (intro exI[of _ "m' # out"] conjI allI impI)
    show "remap_loop new_messages (m # messages) = Inr (new_messages @ m' # out)"
      using step out(1) by simp
    show "length (m' # out) = length (m # messages)" using out(2) by simp
    fix i assume "i < length (m # messages)"
    then show "if map_of ((m # messages) ! i) ''role'' = Some (VStr ''developer'')
         then \<exists>content. map_of ((m # messages) ! i) ''content'' = Some content \<and>
                (m' # out) ! i = [(''role'', VStr ''system''), (''content'', content)]
         else (m' # out) ! i = (m # messages) ! i"
      using head out(3) by (cases i) auto
  qed
qed

text \<open>
  C9: on a sequence of chat messages (each with a role; a developer message with a
  content), \<^verbatim>\<open>map_developer_role_to_system_role\<close> returns a sequence of the same length
  in the same order; at the position of a message whose role is \<^verbatim>\<open>"developer"\<close> stands
  the message with role \<^verbatim>\<open>"system"\<close> and the same content, at every other position the
  input message itself.
\<close>

theorem developer_role_remap:
  assumes "\<forall>m \<in> set messages. \<exists>role. map_of m ''role'' = Some role \<and>
             (role = VStr ''developer'' \<longrightarrow> map_of m ''content'' \<noteq> None)"
  shows "\<exists>out. map_developer_role_to_system_role messages = Inr out \<and>
           length out = length messages \<and>
           (\<forall>i < length messages.
              if map_of (messages ! i) ''role'' = Some (VStr ''developer'')
              then \<exists>content. map_of (messages ! i) ''content'' = Some content \<and>
                     out ! i = [(''role'', VStr ''system''), (''content'', content)]
              else out ! i = messages ! i)"
  using remap_loop_typed[OF assms, of "[]"]
  by (simp add: map_developer_role_to_system_role_def)

theorem developer_role_remap_witness:
  "map_developer_role_to_system_role
     [[(''role'', VStr ''developer''), (''content'', VStr ''x'')],
      [(''role'', VStr ''user''), (''content'', VStr ''y'')]]
   = Inr [[(''role'', VStr ''system''), (''content'', VStr ''x'')],
          [(''role'', VStr ''user''), (''content'', VStr ''y'')]]"
proof -
  let ?ms = "[[(''role'', VStr ''developer''), (''content'', VStr ''x'')],
      [(''role'', VStr ''user''), (''content'', VStr ''y'')]]"
  have typed: "\<forall>m \<in> set ?ms. \<exists>role. map_of m ''role'' = Some role \<and>
             (role = VStr ''developer'' \<longrightarrow> map_of m ''content'' \<noteq> None)"
    by simp
  from developer_role_remap[OF typed] obtain out where
    out: "map_developer_role_to_system_role ?ms = Inr out" "length out = 2"
    and each: "\<forall>i < 2. if map_of (?ms ! i) ''role'' = Some (VStr ''developer'')
              then \<exists>content. map_of (?ms ! i) ''content'' = Some content \<and>
                     out ! i = [(''role'', VStr ''system''), (''content'', content)]
              else out ! i = ?ms ! i"
    by auto
  from each have "out ! 0 = [(''role'', VStr ''system''), (''content'', VStr ''x'')]"
    by (auto dest!: spec[of _ 0])
  moreover from each have "out ! 1 = [(''role'', VStr ''user''), (''content'', VStr ''y'')]"
    by (auto dest!: spec[of _ 1])
  moreover from out(2) obtain a b where "out = [a, b]"
    by (cases out; cases "tl out") auto
  ultimately show ?thesis using out(1) by simp
qed

section \<open>Rerank cost: the results\<close>

text \<open>
  The call raises for a known model with a float price when the query count is too large
  for a float: the \<^verbatim>\<open>try\<close> covers the lookup only, not the multiplication.
\<close>

theorem rerank_cost_overflow:
  "priced_info ''rerank-float'' None
     = Inr (Map.empty(''input_cost_per_query'' \<mapsto> Some (PFloat (1 / 2)))) \<and>
   get_rerank_cost priced_info exact_fmul ''rerank-float'' (2 ^ 1024) None = Inl OverflowError"
  by (simp add: get_rerank_cost_def priced_info_def int_to_float_ok_def)

text \<open>
  C8, as the code has it: when the lookup fails (\<^verbatim>\<open>get_model_info\<close> raises, or the
  pricing key is missing, or its value is \<^verbatim>\<open>None\<close>) the result is exactly
  \<open>(0.0, 0.0)\<close> and nothing is raised. The call raises in one situation only: the price
  is a float and the query count does not convert to a float; the exception is then
  \<^verbatim>\<open>OverflowError\<close>.
\<close>

theorem rerank_cost_fail_open:
  "(\<forall>e. get_model_info model provider = Inl e \<longrightarrow>
        get_rerank_cost get_model_info fmul model n provider = Inr (PFloat 0, PFloat 0)) \<and>
   (\<forall>info. get_model_info model provider = Inr info \<longrightarrow>
        info ''input_cost_per_query'' = None \<or> info ''input_cost_per_query'' = Some None \<longrightarrow>
        get_rerank_cost get_model_info fmul model n provider = Inr (PFloat 0, PFloat 0)) \<and>
   ((\<exists>e. get_rerank_cost get_model_info fmul model n provider = Inl e) \<longleftrightarrow>
    (\<exists>info x. get_model_info model provider = Inr info \<and>
        info ''input_cost_per_query'' = Some (Some (PFloat x)) \<and> \<not> int_to_float_ok n)) \<and>
   (\<forall>e. get_rerank_cost get_model_info fmul model n provider = Inl e \<longrightarrow> e = OverflowError)"
proof -
  consider e where "get_model_info model provider = Inl e"
    | info where "get_model_info model provider = Inr info" "info ''input_cost_per_query'' = None"
    | info where "get_model_info model provider = Inr info" "info ''input_cost_per_query'' = Some None"
    | info a where "get_model_info model provider = Inr info"
        "info ''input_cost_per_query'' = Some (Some (PInt a))"
    | info x where "get_model_info model provider = Inr info"
        "info ''input_cost_per_query'' = Some (Some (PFloat x))"
    by (cases "get_model_info model provider") (metis option.exhaust pynum.exhaust)+
  then show ?thesis
    by cases (simp_all add: get_rerank_cost_def)
qed

theorem rerank_cost_fail_open_witness:
  "priced_info ''no-such-model'' None = Inl (OtherException ''This model isn't mapped yet'') \<and>
   get_rerank_cost priced_info exact_fmul ''no-such-model'' 7 None = Inr (PFloat 0, PFloat 0) \<and>
   priced_info ''chat-only'' None = Inr Map.empty \<and>
   get_rerank_cost priced_info exact_fmul ''chat-only'' 7 None = Inr (PFloat 0, PFloat 0)"
  using rerank_cost_fail_open [of priced_info "''no-such-model''" None exact_fmul 7]
    rerank_cost_fail_open [of priced_info "''chat-only''" None exact_fmul 7]
  by (simp add: priced_info_def)

text \<open>
  A successful lookup that returns no pair: the price is \<open>0.5\<close>, the query count is
  \<open>- 2 ^ 1100\<close>.
\<close>

theorem rerank_cost_product_overflow:
  "priced_info ''rerank-float'' (Some ''cohere'')
     = Inr (Map.empty(''input_cost_per_query'' \<mapsto> Some (PFloat (1 / 2)))) \<and>
   get_rerank_cost priced_info exact_fmul ''rerank-float'' (- (2 ^ 1100)) (Some ''cohere'')
     = Inl OverflowError"
  by (simp add: get_rerank_cost_def priced_info_def int_to_float_ok_def)

text \<open>
  C10, as the code has it: after a successful lookup with a price that is not
  \<^verbatim>\<open>None\<close>, the call returns the pair of the product of price and query count and
  \<open>0.0\<close>, for an integer price always and for a float price when the query count
  converts to a float; otherwise it raises \<^verbatim>\<open>OverflowError\<close>. Whenever a pair is
  returned, its completion cost is exactly \<open>0.0\<close>.
\<close>

theorem rerank_cost_product:
  assumes "get_model_info model provider = Inr info"
    and "info ''input_cost_per_query'' = Some (Some price)"
  shows "(\<forall>a. price = PInt a \<longrightarrow>
            get_rerank_cost get_model_info fmul model n provider = Inr (PInt (a * n), PFloat 0)) \<and>
         (\<forall>x. price = PFloat x \<longrightarrow> int_to_float_ok n \<longrightarrow>
            get_rerank_cost get_model_info fmul model n provider
              = Inr (PFloat (fmul x n), PFloat 0)) \<and>
         (\<forall>x. price = PFloat x \<longrightarrow> \<not> int_to_float_ok n \<longrightarrow>
            get_rerank_cost get_model_info fmul model n provider = Inl OverflowError) \<and>
         (\<forall>prompt_cost completion_cost.
            get_rerank_cost get_model_info fmul model n provider
              = Inr (prompt_cost, completion_cost) \<longrightarrow> completion_cost = PFloat 0)"
  using assms by (cases price) (auto simp: get_rerank_cost_def)

theorem rerank_cost_product_witness:
  "get_rerank_cost priced_info exact_fmul ''rerank-float'' 4 None = Inr (PFloat 2, PFloat 0) \<and>
   get_rerank_cost priced_info exact_fmul ''rerank-int'' 4 None = Inr (PInt 12, PFloat 0)"
proof -
  have f: "priced_info ''rerank-float'' None
      = Inr (Map.empty(''input_cost_per_query'' \<mapsto> Some (PFloat (1 / 2))))"
    and i: "priced_info ''rerank-int'' None
      = Inr (Map.empty(''input_cost_per_query'' \<mapsto> Some (PInt 3)))"
    by (simp_all add: priced_info_def)
  have ok: "int_to_float_ok 4" by (simp add: int_to_float_ok_def)
  have pf: "(Map.empty(''input_cost_per_query'' \<mapsto> Some (PFloat (1 / 2 :: rat))))
      ''input_cost_per_query'' = Some (Some (PFloat (1 / 2)))"
    and pi: "(Map.empty(''input_cost_per_query'' \<mapsto> Some (PInt 3 :: rat pynum)))
      ''input_cost_per_query'' = Some (Some (PInt 3))"
    by simp_all
  from rerank_cost_product [where get_model_info = priced_info and model = "''rerank-float''"
        and provider = None and price = "PFloat (1 / 2)" and fmul = exact_fmul and n = 4, OF f pf]
  have "int_to_float_ok 4 \<longrightarrow>
      get_rerank_cost priced_info exact_fmul ''rerank-float'' 4 None
        = Inr (PFloat (exact_fmul (1 / 2) 4), PFloat 0)"
    by blast
  moreover
  from rerank_cost_product [where get_model_info = priced_info and model = "''rerank-int''"
        and provider = None and price = "PInt 3" and fmul = exact_fmul and n = 4, OF i pi]
  have "get_rerank_cost priced_info exact_fmul ''rerank-int'' 4 None
        = Inr (PInt (3 * 4), PFloat 0)"
    by blast
  ultimately show ?thesis
    using ok by (simp add: exact_fmul_def)
qed

section \<open>The loop, one iteration at a time\<close>

text \<open>The unfolding of the loop in each of its six situations.\<close>

lemma loop_empty: "update_refs_loop fmt h [] visited trace = Some (h, visited, trace, Inr ())"
  by (subst update_refs_loop.simps) simp

lemma loop_seen:
  "a \<in> visited \<Longrightarrow> update_refs_loop fmt h ((a, p) # stack) visited trace = update_refs_loop fmt h stack visited trace"
  by (subst update_refs_loop.simps) simp

lemma loop_dict_ok:
  "a \<notin> visited \<Longrightarrow> heap_get h a = Some (ODict obj) \<Longrightarrow> rewrite_ref fmt obj = Inr obj' \<Longrightarrow>
   update_refs_loop fmt h ((a, p) # stack) visited trace =
   update_refs_loop fmt (h[a := ODict obj']) (rev (dict_children p obj') @ stack) (insert a visited) (trace @ [a])"
  by (subst update_refs_loop.simps) simp

lemma loop_dict_err:
  "a \<notin> visited \<Longrightarrow> heap_get h a = Some (ODict obj) \<Longrightarrow> rewrite_ref fmt obj = Inl e \<Longrightarrow>
   update_refs_loop fmt h ((a, p) # stack) visited trace = Some (h, insert a visited, trace @ [a], Inl e)"
  by (subst update_refs_loop.simps) simp

lemma loop_list:
  "a \<notin> visited \<Longrightarrow> heap_get h a = Some (OList xs) \<Longrightarrow>
   update_refs_loop fmt h ((a, p) # stack) visited trace =
   update_refs_loop fmt h (rev (list_children p 0 xs) @ stack) (insert a visited) (trace @ [a])"
  by (subst update_refs_loop.simps) simp

lemma loop_missing:
  "a \<notin> visited \<Longrightarrow> heap_get h a = None \<Longrightarrow>
   update_refs_loop fmt h ((a, p) # stack) visited trace =
   update_refs_loop fmt h stack (insert a visited) (trace @ [a])"
  by (subst update_refs_loop.simps) simp

text \<open>
  Induction over the runs of the loop. It is well-founded on the pair of \<open>unvisited\<close>
  and the height of the stack: an iteration that pushes marks an address of the heap that
  was not marked, every other iteration only pops.
\<close>

lemma unvisited_insert:
  "a \<notin> visited \<Longrightarrow> a < length h \<Longrightarrow> unvisited h (insert a visited) < unvisited h visited"
  unfolding unvisited_def
  by (rule psubset_card_mono) auto

lemma loop_induct [case_names empty seen dict list missing]:
  assumes empty: "\<And>h visited trace. P h [] visited trace"
    and seen: "\<And>h a p stack visited trace.
        a \<in> visited \<Longrightarrow> P h stack visited trace \<Longrightarrow> P h ((a, p) # stack) visited trace"
    and dict: "\<And>h a p stack visited trace obj.
        a \<notin> visited \<Longrightarrow> heap_get h a = Some (ODict obj) \<Longrightarrow>
        (\<And>obj'. rewrite_ref fmt obj = Inr obj' \<Longrightarrow>
           P (h[a := ODict obj']) (rev (dict_children p obj') @ stack) (insert a visited) (trace @ [a])) \<Longrightarrow>
        P h ((a, p) # stack) visited trace"
    and list: "\<And>h a p stack visited trace xs.
        a \<notin> visited \<Longrightarrow> heap_get h a = Some (OList xs) \<Longrightarrow>
        P h (rev (list_children p 0 xs) @ stack) (insert a visited) (trace @ [a]) \<Longrightarrow>
        P h ((a, p) # stack) visited trace"
    and missing: "\<And>h a p stack visited trace.
        a \<notin> visited \<Longrightarrow> heap_get h a = None \<Longrightarrow>
        P h stack (insert a visited) (trace @ [a]) \<Longrightarrow>
        P h ((a, p) # stack) visited trace"
  shows "P h stack visited trace"
proof (induction "(unvisited h visited, length stack)" arbitrary: h stack visited trace
        rule: wf_induct_rule [OF wf_less_than [THEN wf_lex_prod, OF wf_less_than]])
  case (1 h stack visited trace)
  note less = 1
  show ?case
  proof (cases stack)
    case Nil
    then show ?thesis by (simp add: empty)
  next
    case (Cons top rest)
    obtain a p where top: "top = (a, p)" by (cases top)
    show ?thesis
    proof (cases "a \<in> visited")
      case True
      have "P h rest visited trace"
        by (rule less) (simp add: Cons)
      with True show ?thesis unfolding Cons top by (rule seen)
    next
      case False
      show ?thesis
      proof (cases "heap_get h a")
        case None
        have "P h rest (insert a visited) (trace @ [a])"
        proof (rule less)
          have "unvisited h (insert a visited) = unvisited h visited"
            using None unfolding unvisited_def heap_get_def
            by (auto split: if_splits intro!: arg_cong[where f=card])
          then show "((unvisited h (insert a visited), length rest), (unvisited h visited, length stack))
             \<in> less_than <*lex*> less_than" by (simp add: Cons)
        qed
        with False None show ?thesis unfolding Cons top by (rule missing)
      next
        case (Some ob)
        then have lt: "a < length h" by (auto simp: heap_get_def split: if_splits)
        show ?thesis
        proof (cases ob)
          case (ODict obj)
          have "P (h[a := ODict obj']) (rev (dict_children p obj') @ rest) (insert a visited) (trace @ [a])"
            for obj'
          proof (rule less)
            have "unvisited (h[a := ODict obj']) (insert a visited) < unvisited h visited"
              using unvisited_insert[OF False lt] by (simp add: unvisited_def)
            then show "((unvisited (h[a := ODict obj']) (insert a visited),
                  length (rev (dict_children p obj') @ rest)), (unvisited h visited, length stack))
               \<in> less_than <*lex*> less_than" by simp
          qed
          with False Some ODict show ?thesis unfolding Cons top by (intro dict) auto
        next
          case (OList xs)
          have "P h (rev (list_children p 0 xs) @ rest) (insert a visited) (trace @ [a])"
          proof (rule less)
            show "((unvisited h (insert a visited),
                  length (rev (list_children p 0 xs) @ rest)), (unvisited h visited, length stack))
               \<in> less_than <*lex*> less_than" using unvisited_insert[OF False lt] by simp
          qed
          with False Some OList show ?thesis unfolding Cons top by (intro list) auto
        qed
      qed
    qed
  qed
qed

text \<open>The loop returns from every state.\<close>

lemma loop_returns: "\<exists>r. update_refs_loop fmt h stack visited trace = Some r"
proof (induction h stack visited trace rule: loop_induct[where fmt=fmt])
  case (dict h a p stack visited trace obj)
  then show ?case
    by (cases "rewrite_ref fmt obj") (simp_all add: loop_dict_ok loop_dict_err)
qed (simp_all add: loop_empty loop_seen loop_list loop_missing)

section \<open>Termination of the rewriter\<close>

text \<open>
  C3: the traversal of \<^verbatim>\<open>update_refs\<close> returns, from every state of the loop and for
  every root, whatever the heap holds: sharing and cycles included. The heap is finite,
  each iteration that pushes marks one more of its addresses, and a marked address is
  only popped. On \<open>cyclic_heap\<close>, where the root contains itself and a list that contains
  both, the rewrite completes after visiting each of the two objects once.
\<close>

theorem update_refs_terminates:
  "(\<exists>r. update_refs_loop fmt h stack visited trace = Some r) \<and>
   (\<exists>r. update_refs fmt h schema = Some r) \<and>
   update_refs (str_format ''provider/{model}'') cyclic_heap (VRef 0)
     = Some ([ODict [(''$ref'', VStr ''provider/Node''), (''items'', VRef 1), (''self'', VRef 0)],
              OList [VRef 0, VRef 1, VStr ''leaf'']],
             {0, 1}, [0, 1], Inr ())"
proof (intro conjI)
  show "\<exists>r. update_refs_loop fmt h stack visited trace = Some r"
    by (rule loop_returns)
  show "\<exists>r. update_refs fmt h schema = Some r"
    by (cases schema) (simp_all add: update_refs_def loop_returns del: split_paired_Ex)
  show "update_refs (str_format ''provider/{model}'') cyclic_heap (VRef 0)
     = Some ([ODict [(''$ref'', VStr ''provider/Node''), (''items'', VRef 1), (''self'', VRef 0)],
              OList [VRef 0, VRef 1, VStr ''leaf'']],
             {0, 1}, [0, 1], Inr ())"
    by (simp add: update_refs_def cyclic_heap_def update_refs_loop.simps heap_get_def
        rewrite_ref_def model_name_def lookup_field_def plain_field_def is_digit_def insert_commute)
qed

section \<open>Edges and reachability under rewriting\<close>

lemma fst_dict_children: "map fst (dict_children p obj) = ref_addrs (map snd obj)"
  by (induction p obj rule: dict_children.induct) (auto split: pyval.splits)

lemma fst_list_children: "map fst (list_children p i xs) = ref_addrs xs"
  by (induction p i xs rule: list_children.induct) (auto split: pyval.splits)

lemma dict_set_str_refs:
  "map_of obj k = Some (VStr old) \<Longrightarrow>
   ref_addrs (map snd (dict_set k (VStr s) obj)) = ref_addrs (map snd obj)"
  by (induction obj) (auto split: if_splits pyval.splits)

lemma rewrite_ref_refs:
  "rewrite_ref fmt obj = Inr obj' \<Longrightarrow> ref_addrs (map snd obj') = ref_addrs (map snd obj)"
  by (auto simp: rewrite_ref_def dict_set_str_refs split: option.splits pyval.splits sum.splits)

lemma heap_get_update:
  "heap_get (h[a := x]) b = (if b = a \<and> a < length h then Some x else heap_get h b)"
  by (auto simp: heap_get_def)

lemma edges_rewrite:
  "heap_get h a = Some (ODict obj) \<Longrightarrow> rewrite_ref fmt obj = Inr obj' \<Longrightarrow>
   edges (h[a := ODict obj']) b = edges h b"
  by (auto simp: edges_def heap_get_update rewrite_ref_refs)

lemma reach_cong:
  assumes "\<And>a. edges h' a = edges h a"
  shows "reach h' r = reach h r"
proof -
  have "b \<in> reach h2 r" if "b \<in> reach h1 r" and "\<And>a. edges h1 a = edges h2 a" for b h1 h2
    using that by (induction rule: reach.induct) (auto intro: reach.intros)
  with assms show ?thesis by (metis subsetI subset_antisym)
qed

lemma reach_rewrite:
  "heap_get h a = Some (ODict obj) \<Longrightarrow> rewrite_ref fmt obj = Inr obj' \<Longrightarrow>
   reach (h[a := ODict obj']) r = reach h r"
  by (rule reach_cong) (rule edges_rewrite)

lemma reach_trans: "c \<in> reach h b \<Longrightarrow> b \<in> reach h a \<Longrightarrow> c \<in> reach h a"
  by (induction rule: reach.induct) (auto intro: reach.intros)

lemma reach_edge: "b \<in> edges h a \<Longrightarrow> c \<in> reach h b \<Longrightarrow> c \<in> reach h a"
  by (erule reach_trans) (auto intro: reach.intros)

lemma edges_list: "heap_get h a = Some (OList xs) \<Longrightarrow> edges h a = fst ` set (list_children p i xs)"
  by (simp add: edges_def fst_list_children flip: set_map)

lemma edges_missing: "heap_get h a = None \<Longrightarrow> edges h a = {}"
  by (simp add: edges_def)

section \<open>Invariants of the traversal\<close>

text \<open>
  The trace grows by a duplicate-free list of addresses that were not visited, and
  \<open>visited\<close> grows by exactly these.
\<close>

lemma loop_trace:
  "update_refs_loop fmt h stack visited trace = Some (h', visited', trace', r) \<Longrightarrow>
   \<exists>new. trace' = trace @ new \<and> distinct new \<and> set new \<inter> visited = {} \<and>
         visited' = visited \<union> set new"
proof (induction h stack visited trace rule: loop_induct[where fmt=fmt])
  case (empty h visited trace)
  then show ?case by (simp add: loop_empty)
next
  case (seen h a p stack visited trace)
  then show ?case by (simp add: loop_seen)
next
  case (dict h a p stack visited trace obj)
  show ?case
  proof (cases "rewrite_ref fmt obj")
    case (Inl e)
    with dict show ?thesis by (intro exI[of _ "[a]"]) (auto simp: loop_dict_err)
  next
    case (Inr obj')
    with dict obtain new where "trace' = (trace @ [a]) @ new" "distinct new"
      "set new \<inter> insert a visited = {}" "visited' = insert a visited \<union> set new"
      by (auto simp: loop_dict_ok)
    with dict.hyps(1) show ?thesis by (intro exI[of _ "a # new"]) auto
  qed
next
  case (list h a p stack visited trace xs)
  then obtain new where "trace' = (trace @ [a]) @ new" "distinct new"
      "set new \<inter> insert a visited = {}" "visited' = insert a visited \<union> set new"
    by (auto simp: loop_list)
  with list.hyps(1) show ?case by (intro exI[of _ "a # new"]) auto
next
  case (missing h a p stack visited trace)
  then obtain new where "trace' = (trace @ [a]) @ new" "distinct new"
      "set new \<inter> insert a visited = {}" "visited' = insert a visited \<union> set new"
    by (auto simp: loop_missing)
  with missing.hyps(1) show ?case by (intro exI[of _ "a # new"]) auto
qed

lemma loop_visited_mono:
  "update_refs_loop fmt h stack visited trace = Some (h', visited', trace', r) \<Longrightarrow> visited \<subseteq> visited'"
  by (drule loop_trace) auto

text \<open>The heap keeps its size, and only objects visited in this run can have changed.\<close>

lemma loop_frame:
  "update_refs_loop fmt h stack visited trace = Some (h', visited', trace', r) \<Longrightarrow>
   length h' = length h \<and> (\<forall>b. b \<notin> visited' \<or> b \<in> visited \<longrightarrow> heap_get h' b = heap_get h b)"
proof (induction h stack visited trace rule: loop_induct[where fmt=fmt])
  case (dict h a p stack visited trace obj)
  show ?case
  proof (cases "rewrite_ref fmt obj")
    case (Inl e)
    with dict show ?thesis by (simp add: loop_dict_err)
  next
    case (Inr obj')
    with dict have run: "update_refs_loop fmt (h[a := ODict obj']) (rev (dict_children p obj') @ stack)
        (insert a visited) (trace @ [a]) = Some (h', visited', trace', r)"
      by (simp add: loop_dict_ok)
    from loop_visited_mono[OF run] have "a \<in> visited'" by auto
    with dict.IH[OF Inr run] dict.hyps(1) show ?thesis
      by (auto simp: heap_get_update)
  qed
qed (auto simp: loop_empty loop_seen loop_list loop_missing dest: loop_visited_mono)

lemma children_rewrite:
  "rewrite_ref fmt obj = Inr obj' \<Longrightarrow> fst ` set (dict_children p obj') = set (ref_addrs (map snd obj))"
  by (simp add: fst_dict_children rewrite_ref_refs flip: set_map)

text \<open>Only addresses reachable from the stack are visited.\<close>

lemma loop_sound:
  "update_refs_loop fmt h stack visited trace = Some (h', visited', trace', r) \<Longrightarrow>
   visited' \<subseteq> visited \<union> (\<Union>s \<in> fst ` set stack. reach h s)"
proof (induction h stack visited trace rule: loop_induct[where fmt=fmt])
  case (empty h visited trace)
  then show ?case by (simp add: loop_empty)
next
  case (seen h a p stack visited trace)
  then show ?case by (auto simp: loop_seen)
next
  case (dict h a p stack visited trace obj)
  show ?case
  proof (cases "rewrite_ref fmt obj")
    case (Inl e)
    with dict show ?thesis by (auto simp: loop_dict_err intro: reach.root)
  next
    case (Inr obj')
    with dict have run: "update_refs_loop fmt (h[a := ODict obj']) (rev (dict_children p obj') @ stack)
        (insert a visited) (trace @ [a]) = Some (h', visited', trace', r)"
      by (simp add: loop_dict_ok)
    have kids: "fst ` set (dict_children p obj') = edges h a"
      using dict.hyps(2) Inr by (simp add: children_rewrite edges_def)
    have "(\<Union>s \<in> fst ` set (rev (dict_children p obj') @ stack). reach h s)
        \<subseteq> reach h a \<union> (\<Union>s \<in> fst ` set stack. reach h s)"
      unfolding set_append set_rev image_Un kids by (auto dest: reach_edge)
    moreover have "a \<in> reach h a" by (rule reach.root)
    moreover note dict.IH[OF Inr run, unfolded reach_rewrite[OF dict.hyps(2) Inr]]
    ultimately show ?thesis by fastforce
  qed
next
  case (list h a p stack visited trace xs)
  then have run: "update_refs_loop fmt h (rev (list_children p 0 xs) @ stack)
        (insert a visited) (trace @ [a]) = Some (h', visited', trace', r)"
    by (simp add: loop_list)
  have kids: "fst ` set (list_children p 0 xs) = edges h a"
    using list.hyps(2) by (rule edges_list[symmetric])
  have "(\<Union>s \<in> fst ` set (rev (list_children p 0 xs) @ stack). reach h s)
      \<subseteq> reach h a \<union> (\<Union>s \<in> fst ` set stack. reach h s)"
    unfolding set_append set_rev image_Un kids by (auto dest: reach_edge)
  moreover have "a \<in> reach h a" by (rule reach.root)
  moreover note list.IH[OF run]
  ultimately show ?case by fastforce
next
  case (missing h a p stack visited trace)
  then have "visited' \<subseteq> insert a visited \<union> (\<Union>s \<in> fst ` set stack. reach h s)"
    by (simp add: loop_missing)
  then show ?case by (auto intro: reach.root)
qed

text \<open>After a run that did not raise, each newly visited object has had one visit.\<close>

lemma loop_rewritten:
  "update_refs_loop fmt h stack visited trace = Some (h', visited', trace', Inr ()) \<Longrightarrow>
   b \<in> visited' \<Longrightarrow> b \<notin> visited \<Longrightarrow> visit_of fmt (heap_get h b) (heap_get h' b)"
proof (induction h stack visited trace rule: loop_induct[where fmt=fmt])
  case (empty h visited trace)
  then show ?case by (simp add: loop_empty)
next
  case (seen h a p stack visited trace)
  then show ?case by (simp add: loop_seen)
next
  case (dict h a p stack visited trace obj)
  show ?case
  proof (cases "rewrite_ref fmt obj")
    case (Inl e)
    with dict show ?thesis by (simp add: loop_dict_err)
  next
    case (Inr obj')
    with dict have run: "update_refs_loop fmt (h[a := ODict obj']) (rev (dict_children p obj') @ stack)
        (insert a visited) (trace @ [a]) = Some (h', visited', trace', Inr ())"
      by (simp add: loop_dict_ok)
    from dict.hyps(2) have lt: "a < length h" by (simp add: heap_get_def split: if_splits)
    show ?thesis
    proof (cases "b = a")
      case True
      from loop_frame[OF run] have "heap_get h' a = heap_get (h[a := ODict obj']) a" by simp
      with lt have "heap_get h' a = Some (ODict obj')" by (simp add: heap_get_update)
      with True dict.hyps(2) Inr show ?thesis by (simp add: visit_of_def)
    next
      case False
      with dict.IH[OF Inr run] dict.prems show ?thesis by (simp add: heap_get_update)
    qed
  qed
next
  case (list h a p stack visited trace xs)
  then have run: "update_refs_loop fmt h (rev (list_children p 0 xs) @ stack)
        (insert a visited) (trace @ [a]) = Some (h', visited', trace', Inr ())"
    by (simp add: loop_list)
  show ?case
  proof (cases "b = a")
    case True
    from loop_frame[OF run] have "heap_get h' a = heap_get h a" by simp
    with True list.hyps(2) show ?thesis by (simp add: visit_of_def)
  next
    case False
    with list.IH[OF run] list.prems show ?thesis by simp
  qed
next
  case (missing h a p stack visited trace)
  then have run: "update_refs_loop fmt h stack
        (insert a visited) (trace @ [a]) = Some (h', visited', trace', Inr ())"
    by (simp add: loop_missing)
  show ?case
  proof (cases "b = a")
    case True
    from loop_frame[OF run] have "heap_get h' a = heap_get h a" by simp
    with True missing.hyps(2) show ?thesis by (simp add: visit_of_def)
  next
    case False
    with missing.IH[OF run] missing.prems show ?thesis by simp
  qed
qed

text \<open>
  After a run that did not raise, everything that was on the stack is visited, and so is
  every member of a newly visited object.
\<close>

lemma loop_complete:
  "update_refs_loop fmt h stack visited trace = Some (h', visited', trace', Inr ()) \<Longrightarrow>
   fst ` set stack \<subseteq> visited' \<and> (\<forall>b \<in> visited' - visited. edges h b \<subseteq> visited')"
proof (induction h stack visited trace rule: loop_induct[where fmt=fmt])
  case (empty h visited trace)
  then show ?case by (simp add: loop_empty)
next
  case (seen h a p stack visited trace)
  then show ?case by (auto simp: loop_seen dest: loop_visited_mono)
next
  case (dict h a p stack visited trace obj)
  show ?case
  proof (cases "rewrite_ref fmt obj")
    case (Inl e)
    with dict show ?thesis by (simp add: loop_dict_err)
  next
    case (Inr obj')
    with dict have run: "update_refs_loop fmt (h[a := ODict obj']) (rev (dict_children p obj') @ stack)
        (insert a visited) (trace @ [a]) = Some (h', visited', trace', Inr ())"
      by (simp add: loop_dict_ok)
    have kids: "fst ` set (dict_children p obj') = edges h a"
      using dict.hyps(2) Inr by (simp add: children_rewrite edges_def)
    from loop_visited_mono[OF run] have "a \<in> visited'" by auto
    with dict.IH[OF Inr run] kids show ?thesis
      unfolding edges_rewrite[OF dict.hyps(2) Inr] by (auto simp: image_Un)
  qed
next
  case (list h a p stack visited trace xs)
  then have run: "update_refs_loop fmt h (rev (list_children p 0 xs) @ stack)
        (insert a visited) (trace @ [a]) = Some (h', visited', trace', Inr ())"
    by (simp add: loop_list)
  have kids: "fst ` set (list_children p 0 xs) = edges h a"
    using list.hyps(2) by (rule edges_list[symmetric])
  from loop_visited_mono[OF run] have "a \<in> visited'" by auto
  with list.IH[OF run] kids show ?case by (auto simp: image_Un)
next
  case (missing h a p stack visited trace)
  then have run: "update_refs_loop fmt h stack
        (insert a visited) (trace @ [a]) = Some (h', visited', trace', Inr ())"
    by (simp add: loop_missing)
  from loop_visited_mono[OF run] have "a \<in> visited'" by auto
  with missing.IH[OF run] missing.hyps(2) show ?case by (auto simp: edges_missing)
qed

text \<open>An exception comes from the rewrite of a newly visited dict.\<close>

lemma loop_error_source:
  "update_refs_loop fmt h stack visited trace = Some (h', visited', trace', Inl e) \<Longrightarrow>
   \<exists>b obj. b \<in> visited' \<and> b \<notin> visited \<and> heap_get h b = Some (ODict obj) \<and> rewrite_ref fmt obj = Inl e"
proof (induction h stack visited trace rule: loop_induct[where fmt=fmt])
  case (empty h visited trace)
  then show ?case by (simp add: loop_empty)
next
  case (seen h a p stack visited trace)
  then show ?case by (simp add: loop_seen)
next
  case (dict h a p stack visited trace obj)
  show ?case
  proof (cases "rewrite_ref fmt obj")
    case (Inl e')
    with dict show ?thesis by (auto simp: loop_dict_err)
  next
    case (Inr obj')
    with dict have run: "update_refs_loop fmt (h[a := ODict obj']) (rev (dict_children p obj') @ stack)
        (insert a visited) (trace @ [a]) = Some (h', visited', trace', Inl e)"
      by (simp add: loop_dict_ok)
    from dict.IH[OF Inr run] show ?thesis by (auto simp: heap_get_update split: if_splits)
  qed
next
  case (list h a p stack visited trace xs)
  then show ?case by (auto simp: loop_list)
next
  case (missing h a p stack visited trace)
  then show ?case by (auto simp: loop_missing)
qed

section \<open>Splitting, and assignment into a dict\<close>

lemma split_on_nonempty: "split_on sep s \<noteq> []"
  by (induction s) (auto split: list.splits)

lemma split_on_append: "split_on sep (xs @ sep # ys) = split_on sep xs @ split_on sep ys"
proof (induction xs)
  case Nil
  show ?case by simp
next
  case (Cons x xs)
  obtain w ws where "split_on sep xs = w # ws"
    using split_on_nonempty[of sep xs] by (cases "split_on sep xs") auto
  with Cons show ?case by simp
qed

lemma split_on_no_sep: "sep \<notin> set s \<Longrightarrow> split_on sep s = [s]"
  by (induction s) auto

lemma model_name_no_slash: "CHR ''/'' \<notin> set ref_path \<Longrightarrow> model_name ref_path = ref_path"
  by (simp add: model_name_def split_on_no_sep)

lemma model_name_after_slash:
  "CHR ''/'' \<notin> set name \<Longrightarrow> model_name (prefix @ CHR ''/'' # name) = name"
  by (simp add: model_name_def split_on_append split_on_no_sep)

lemma map_of_dict_set_same: "map_of (dict_set k v obj) k = Some v"
  by (induction obj) auto

lemma map_of_dict_set_other: "k' \<noteq> k \<Longrightarrow> map_of (dict_set k v obj) k' = map_of obj k'"
  by (induction obj) auto

lemma keys_dict_set: "map_of obj k \<noteq> None \<Longrightarrow> map fst (dict_set k v obj) = map fst obj"
  by (induction obj) (auto split: if_splits)

lemma nth_dict_set:
  "map_of obj k \<noteq> None \<Longrightarrow> i < length obj \<Longrightarrow> fst (obj ! i) \<noteq> k \<Longrightarrow> dict_set k v obj ! i = obj ! i"
proof (induction obj arbitrary: i)
  case Nil
  then show ?case by simp
next
  case (Cons kv obj)
  then show ?case by (cases kv; cases i) (auto split: if_splits)
qed

lemma rewrite_ref_Inr_iff:
  "(\<exists>obj'. rewrite_ref fmt obj = Inr obj') \<longleftrightarrow>
   (map_of obj ''$ref'' = None \<or>
    (\<exists>ref_path s. map_of obj ''$ref'' = Some (VStr ref_path) \<and> fmt (model_name ref_path) = Inr s))"
  by (auto simp: rewrite_ref_def split: option.splits pyval.splits sum.splits)

lemma rewrite_ref_string:
  "rewrite_ref fmt obj = Inr obj' \<Longrightarrow> map_of obj ''$ref'' = Some (VStr ref_path) \<Longrightarrow>
   \<exists>s. fmt (model_name ref_path) = Inr s \<and> obj' = dict_set ''$ref'' (VStr s) obj"
  by (auto simp: rewrite_ref_def split: sum.splits)

section \<open>The traversal from a root\<close>

text \<open>A set that holds the root and the members of each of its elements holds all that is reachable.\<close>

lemma reach_closed:
  assumes "rt \<in> S" and "\<And>a. a \<in> S \<Longrightarrow> edges h a \<subseteq> S"
  shows "reach h rt \<subseteq> S"
proof
  fix b assume "b \<in> reach h rt"
  then show "b \<in> S" using assms by (induction rule: reach.induct) auto
qed

lemma walk_trace:
  assumes "update_refs fmt h (VRef rt) = Some (h', visited, trace, r)"
  shows "distinct trace \<and> set trace = visited"
  using loop_trace[of fmt h "[(rt, [])]" "{}" "[]" h' visited trace r] assms
  by (auto simp: update_refs_def)

lemma walk_sound:
  assumes "update_refs fmt h (VRef rt) = Some (h', visited, trace, r)"
  shows "visited \<subseteq> reach h rt"
  using loop_sound[of fmt h "[(rt, [])]" "{}" "[]" h' visited trace r] assms
  by (auto simp: update_refs_def)

lemma walk_frame:
  assumes "update_refs fmt h (VRef rt) = Some (h', visited, trace, r)"
  shows "length h' = length h \<and> (\<forall>b. b \<notin> visited \<longrightarrow> heap_get h' b = heap_get h b)"
  using loop_frame[of fmt h "[(rt, [])]" "{}" "[]" h' visited trace r] assms
  by (auto simp: update_refs_def)

lemma walk_complete:
  assumes "update_refs fmt h (VRef rt) = Some (h', visited, trace, Inr ())"
  shows "visited = reach h rt"
proof
  show "visited \<subseteq> reach h rt" by (rule walk_sound[OF assms])
  from assms have run: "update_refs_loop fmt h [(rt, [])] {} [] = Some (h', visited, trace, Inr ())"
    by (simp add: update_refs_def)
  from loop_complete[OF run] show "reach h rt \<subseteq> visited"
    by (intro reach_closed) auto
qed

lemma walk_rewritten:
  assumes "update_refs fmt h (VRef rt) = Some (h', visited, trace, Inr ())" and "b \<in> reach h rt"
  shows "visit_of fmt (heap_get h b) (heap_get h' b)"
proof -
  from assms(1) have run: "update_refs_loop fmt h [(rt, [])] {} [] = Some (h', visited, trace, Inr ())"
    by (simp add: update_refs_def)
  from assms(2) walk_complete[OF assms(1)] have "b \<in> visited" by simp
  with loop_rewritten[OF run] show ?thesis by simp
qed

lemma walk_error_source:
  assumes "update_refs fmt h (VRef rt) = Some (h', visited, trace, Inl e)"
  shows "\<exists>b obj. b \<in> reach h rt \<and> heap_get h b = Some (ODict obj) \<and> rewrite_ref fmt obj = Inl e"
proof -
  from assms have run: "update_refs_loop fmt h [(rt, [])] {} [] = Some (h', visited, trace, Inl e)"
    by (simp add: update_refs_def)
  from loop_error_source[OF run] walk_sound[OF assms] show ?thesis by blast
qed

text \<open>
  The traversal returns without an exception when the rewrite of every reachable dict
  succeeds.
\<close>

lemma walk_succeeds:
  assumes run: "update_refs fmt h (VRef rt) = Some (h', visited, trace, r)"
    and good: "\<forall>a \<in> reach h rt. \<forall>obj. heap_get h a = Some (ODict obj) \<longrightarrow>
       map_of obj ''$ref'' = None \<or>
       (\<exists>ref_path s. map_of obj ''$ref'' = Some (VStr ref_path) \<and>
          fmt (model_name ref_path) = Inr s)"
  shows "r = Inr ()"
proof (cases r)
  case (Inl e)
  from walk_error_source[OF run[unfolded Inl]] obtain b obj where
    "b \<in> reach h rt" "heap_get h b = Some (ODict obj)" "rewrite_ref fmt obj = Inl e"
    by blast
  moreover from this good have "\<exists>obj'. rewrite_ref fmt obj = Inr obj'"
    unfolding rewrite_ref_Inr_iff by blast
  ultimately show ?thesis by simp
next
  case (Inr u)
  then show ?thesis by simp
qed

lemma walk_succeeds_ex:
  assumes good: "\<forall>a \<in> reach h rt. \<forall>obj. heap_get h a = Some (ODict obj) \<longrightarrow>
       map_of obj ''$ref'' = None \<or>
       (\<exists>ref_path s. map_of obj ''$ref'' = Some (VStr ref_path) \<and>
          fmt (model_name ref_path) = Inr s)"
  shows "\<exists>h' visited trace. update_refs fmt h (VRef rt) = Some (h', visited, trace, Inr ())"
proof -
  obtain h' visited trace r where
    run: "update_refs fmt h (VRef rt) = Some (h', visited, trace, r)"
    using loop_returns[of fmt h "[(rt, [])]" "{}" "[]"]
    by (auto simp: update_refs_def)
  from walk_succeeds[OF run good] run show ?thesis by blast
qed

lemma reach_no_edges: "edges h r = {} \<Longrightarrow> reach h r = {r}"
proof -
  assume e: "edges h r = {}"
  have "b = r" if "b \<in> reach h r" for b
    using that e by (induction rule: reach.induct) auto
  then show ?thesis by (auto intro: reach.root)
qed

text \<open>The definitions unfolded to run the rewriter on a concrete heap.\<close>

lemmas eval_defs = update_refs_def update_refs_loop.simps heap_get_def rewrite_ref_def
  model_name_def lookup_field_def plain_field_def is_digit_def

section \<open>What the rewriter does\<close>

text \<open>
  A reachable mapping node with a string \<^verbatim>\<open>"$ref"\<close> that is not rewritten: in
  \<open>mixed_heap\<close> the node with the integer reference is popped first, the traversal
  raises there, and the node 1 keeps \<^verbatim>\<open>x/Foo\<close>, which the template would format.
\<close>

theorem string_ref_left_unrewritten:
  "update_refs (str_format ''provider/{model}'') mixed_heap (VRef 0)
     = Some (mixed_heap, {0, 2}, [0, 2], Inl AttributeError) \<and>
   1 \<in> reach mixed_heap 0 \<and>
   heap_get mixed_heap 1 = Some (ODict [(''$ref'', VStr ''x/Foo'')]) \<and>
   str_format ''provider/{model}'' (model_name ''x/Foo'') = Inr ''provider/Foo''"
proof -
  have "1 \<in> edges mixed_heap 0" by (simp add: edges_def heap_get_def mixed_heap_def)
  then have "1 \<in> reach mixed_heap 0" by (rule reach.step[OF reach.root])
  moreover have "update_refs (str_format ''provider/{model}'') mixed_heap (VRef 0)
     = Some (mixed_heap, {0, 2}, [0, 2], Inl AttributeError)"
    by (simp add: mixed_heap_def eval_defs insert_commute)
  ultimately show ?thesis
    by (simp add: heap_get_def mixed_heap_def model_name_def lookup_field_def plain_field_def
        is_digit_def)
qed

text \<open>
  C2, as the code has it: the traversal returns without an exception whenever every
  reachable mapping node has no \<^verbatim>\<open>"$ref"\<close> or a string there whose last segment the
  template formats; and after a traversal that did not raise, every mapping node reachable
  from the root whose \<^verbatim>\<open>"$ref"\<close> is a string holds, under \<^verbatim>\<open>"$ref"\<close>, the template
  formatted with the last segment of the old value (\<open>fmt\<close> is the \<^verbatim>\<open>format\<close> of the
  template, whatever the template is); its keys are the same keys in the same order, and
  every entry under another key is what it was. The last segment is the whole value when
  it has no \<^verbatim>\<open>/\<close>, and what follows the final \<^verbatim>\<open>/\<close> otherwise. For the response format
  \<open>example_heap\<close> and the template \<^verbatim>\<open>provider/{model}\<close> the normalizer returns a copy
  whose schema has the \<^verbatim>\<open>"$ref"\<close> \<^verbatim>\<open>provider/Foo\<close>.
\<close>

theorem rewrite_every_ref:
  "(\<forall>h rt h' visited trace a obj ref_path.
      update_refs fmt h (VRef rt) = Some (h', visited, trace, Inr ()) \<longrightarrow>
      a \<in> reach h rt \<longrightarrow> heap_get h a = Some (ODict obj) \<longrightarrow>
      map_of obj ''$ref'' = Some (VStr ref_path) \<longrightarrow>
      (\<exists>s obj'. fmt (model_name ref_path) = Inr s \<and>
         heap_get h' a = Some (ODict obj') \<and>
         map_of obj' ''$ref'' = Some (VStr s) \<and>
         map fst obj' = map fst obj \<and>
         (\<forall>k. k \<noteq> ''$ref'' \<longrightarrow> map_of obj' k = map_of obj k) \<and>
         (\<forall>i < length obj. fst (obj ! i) \<noteq> ''$ref'' \<longrightarrow> obj' ! i = obj ! i))) \<and>
   (\<forall>h rt.
      (\<forall>a \<in> reach h rt. \<forall>obj. heap_get h a = Some (ODict obj) \<longrightarrow>
         map_of obj ''$ref'' = None \<or>
         (\<exists>ref_path s. map_of obj ''$ref'' = Some (VStr ref_path) \<and>
            fmt (model_name ref_path) = Inr s)) \<longrightarrow>
      (\<exists>h' visited trace. update_refs fmt h (VRef rt) = Some (h', visited, trace, Inr ()))) \<and>
   (\<forall>ref_path. CHR ''/'' \<notin> set ref_path \<longrightarrow> model_name ref_path = ref_path) \<and>
   (\<forall>prefix name. CHR ''/'' \<notin> set name \<longrightarrow> model_name (prefix @ CHR ''/'' # name) = name) \<and>
   type_to_response_format_param str_format example_heap (RFDict 0) (Some ''provider/{model}'')
     = Some (example_heap @
               [ODict [(''type'', VStr ''json_schema''), (''json_schema'', VRef 4)],
                ODict [(''schema'', VRef 5)],
                ODict [(''$ref'', VStr ''provider/Foo'')]],
             Inr (VRef 3))"
proof (intro conjI allI impI)
  fix h rt h' visited trace a obj ref_path
  assume run: "update_refs fmt h (VRef rt) = Some (h', visited, trace, Inr ())"
    and a: "a \<in> reach h rt" and obj: "heap_get h a = Some (ODict obj)"
    and ref: "map_of obj ''$ref'' = Some (VStr ref_path)"
  from walk_rewritten[OF run a] obj obtain obj' where
    rw: "rewrite_ref fmt obj = Inr obj'" and after: "heap_get h' a = Some (ODict obj')"
    by (auto simp: visit_of_def)
  from rewrite_ref_string[OF rw ref] obtain s where
    s: "fmt (model_name ref_path) = Inr s"
    and obj': "obj' = dict_set ''$ref'' (VStr s) obj"
    by blast
  from ref have present: "map_of obj ''$ref'' \<noteq> None" by simp
  show "\<exists>s obj'. fmt (model_name ref_path) = Inr s \<and>
         heap_get h' a = Some (ODict obj') \<and>
         map_of obj' ''$ref'' = Some (VStr s) \<and>
         map fst obj' = map fst obj \<and>
         (\<forall>k. k \<noteq> ''$ref'' \<longrightarrow> map_of obj' k = map_of obj k) \<and>
         (\<forall>i < length obj. fst (obj ! i) \<noteq> ''$ref'' \<longrightarrow> obj' ! i = obj ! i)"
    using s after present unfolding obj'
    by (intro exI[of _ s] exI[of _ "dict_set ''$ref'' (VStr s) obj"])
       (simp add: map_of_dict_set_same map_of_dict_set_other keys_dict_set nth_dict_set)
next
  fix h rt
  assume "\<forall>a \<in> reach h rt. \<forall>obj. heap_get h a = Some (ODict obj) \<longrightarrow>
         map_of obj ''$ref'' = None \<or>
         (\<exists>ref_path s. map_of obj ''$ref'' = Some (VStr ref_path) \<and>
            fmt (model_name ref_path) = Inr s)"
  then show "\<exists>h' visited trace. update_refs fmt h (VRef rt) = Some (h', visited, trace, Inr ())"
    by (rule walk_succeeds_ex)
next
  fix ref_path :: string
  assume "CHR ''/'' \<notin> set ref_path"
  then show "model_name ref_path = ref_path" by (rule model_name_no_slash)
next
  fix prefix name :: string
  assume "CHR ''/'' \<notin> set name"
  then show "model_name (prefix @ CHR ''/'' # name) = name" by (rule model_name_after_slash)
next
  show "type_to_response_format_param str_format example_heap (RFDict 0) (Some ''provider/{model}'')
     = Some (example_heap @
               [ODict [(''type'', VStr ''json_schema''), (''json_schema'', VRef 4)],
                ODict [(''schema'', VRef 5)],
                ODict [(''$ref'', VStr ''provider/Foo'')]],
             Inr (VRef 3))"
    by (simp add: type_to_response_format_param_def dict_to_response_format_helper_def
        py_get_def py_subscript_def deepcopy_def example_heap_def eval_defs)
qed

lemma nested_run:
  "update_refs (str_format ''provider/{model}'') nested_heap (VRef 0)
   = Some ([ODict [(''type'', VStr ''object''), (''properties'', VRef 1)],
      ODict [(''user'', VRef 2)],
      ODict [(''title'', VStr ''User''), (''$ref'', VStr ''provider/User''), (''anyOf'', VRef 3)],
      OList [VStr ''null'']], {0, 1, 2, 3}, [0, 1, 2, 3], Inr ())"
  by (simp add: nested_heap_def eval_defs insert_commute)

theorem rewrite_every_ref_witness:
  "update_refs (str_format ''provider/{model}'') nested_heap (VRef 0)
   = Some ([ODict [(''type'', VStr ''object''), (''properties'', VRef 1)],
      ODict [(''user'', VRef 2)],
      ODict [(''title'', VStr ''User''), (''$ref'', VStr ''provider/User''), (''anyOf'', VRef 3)],
      OList [VStr ''null'']], {0, 1, 2, 3}, [0, 1, 2, 3], Inr ()) \<and>
   2 \<in> reach nested_heap 0 \<and>
   heap_get nested_heap 2
     = Some (ODict [(''title'', VStr ''User''), (''$ref'', VStr ''#/$defs/User''), (''anyOf'', VRef 3)]) \<and>
   str_format ''provider/{model}'' (model_name ''#/$defs/User'') = Inr ''provider/User'' \<and>
   model_name ''#/$defs/User'' = ''User'' \<and>
   reach nested_heap 0 = {0, 1, 2, 3} \<and>
   (\<exists>h' visited trace.
      update_refs (str_format ''provider/{model}'') nested_heap (VRef 0)
        = Some (h', visited, trace, Inr ()))"
proof -
  have all: "reach nested_heap 0 = {0, 1, 2, 3}"
    using walk_complete[OF nested_run] by simp
  have good: "\<forall>a \<in> reach nested_heap 0. \<forall>obj. heap_get nested_heap a = Some (ODict obj) \<longrightarrow>
         map_of obj ''$ref'' = None \<or>
         (\<exists>ref_path s. map_of obj ''$ref'' = Some (VStr ref_path) \<and>
            str_format ''provider/{model}'' (model_name ref_path) = Inr s)"
    unfolding all
    by (simp add: heap_get_def nested_heap_def model_name_def lookup_field_def plain_field_def
        is_digit_def)
  note returns = rewrite_every_ref[of "str_format ''provider/{model}''",
      THEN conjunct2, THEN conjunct1, THEN spec, THEN spec, THEN mp, OF good]
  have e1: "1 \<in> edges nested_heap 0" and e2: "2 \<in> edges nested_heap 1"
    by (simp_all add: edges_def heap_get_def nested_heap_def)
  have r: "2 \<in> reach nested_heap 0"
    by (rule reach.step[OF reach.step[OF reach.root e1] e2])
  have o: "heap_get nested_heap 2
     = Some (ODict [(''title'', VStr ''User''), (''$ref'', VStr ''#/$defs/User''), (''anyOf'', VRef 3)])"
    by (simp add: heap_get_def nested_heap_def)
  have m: "map_of [(''title'', VStr ''User''), (''$ref'', VStr ''#/$defs/User''), (''anyOf'', VRef 3)]
      ''$ref'' = Some (VStr ''#/$defs/User'')" by simp
  from rewrite_every_ref[of "str_format ''provider/{model}''"] nested_run r o m
  obtain s where "str_format ''provider/{model}'' (model_name ''#/$defs/User'') = Inr s"
    by blast
  moreover have "model_name ''#/$defs/User'' = ''User''"
    using rewrite_every_ref[of "str_format ''provider/{model}''"]
      model_name_after_slash[of "''User''" "''#/$defs''"] by simp
  ultimately show ?thesis using nested_run r o all returns
    by (simp add: lookup_field_def plain_field_def is_digit_def del: split_paired_Ex)
qed

text \<open>
  Reachable nodes that are never visited: in \<open>blocked_heap\<close> the traversal raises at the
  node with the integer reference before it reaches the shared child 4, and in
  \<open>twin_heap\<close> it raises at the node 2, so that of two distinct nodes with equal content
  only one is visited.
\<close>

theorem reachable_node_never_visited:
  "update_refs (str_format ''{model}/x'') blocked_heap (VRef 0)
     = Some (blocked_heap, {0, 3}, [0, 3], Inl AttributeError) \<and>
   4 \<in> reach blocked_heap 0 \<and>
   heap_get blocked_heap 4 = Some (ODict [(''$ref'', VStr ''#/defs/Foo'')]) \<and>
   update_refs (str_format ''{model}/x'') twin_heap (VRef 0)
     = Some (twin_heap, {0, 2}, [0, 2], Inl AttributeError) \<and>
   1 \<in> reach twin_heap 0 \<and>
   heap_get twin_heap 1 = heap_get twin_heap 2"
proof -
  have e1: "1 \<in> edges blocked_heap 0" and e2: "4 \<in> edges blocked_heap 1"
    by (simp_all add: edges_def heap_get_def blocked_heap_def)
  have "4 \<in> reach blocked_heap 0"
    by (rule reach.step[OF reach.step[OF reach.root e1] e2])
  moreover have "1 \<in> edges twin_heap 0" by (simp add: edges_def heap_get_def twin_heap_def)
  then have "1 \<in> reach twin_heap 0" by (rule reach.step[OF reach.root])
  moreover have "update_refs (str_format ''{model}/x'') blocked_heap (VRef 0)
     = Some (blocked_heap, {0, 3}, [0, 3], Inl AttributeError)"
    by (simp add: blocked_heap_def eval_defs insert_commute)
  moreover have "update_refs (str_format ''{model}/x'') twin_heap (VRef 0)
     = Some (twin_heap, {0, 2}, [0, 2], Inl AttributeError)"
    by (simp add: twin_heap_def eval_defs insert_commute)
  ultimately show ?thesis
    by (simp add: heap_get_def blocked_heap_def twin_heap_def)
qed

text \<open>
  C4, as the code has it: the objects that get past the \<open>visited\<close> test are pairwise
  distinct addresses, all reachable from the root: no object is processed twice, however
  many paths lead to it. Objects that were not visited are unchanged. The traversal does
  not raise when every reachable mapping node has no \<^verbatim>\<open>"$ref"\<close> or a string there whose
  last segment the template formats. After a traversal that did not raise, the processed
  addresses are exactly the reachable ones, so that two distinct objects with equal content
  are both processed, and each reachable object is the result of one visit of the object
  it was: a shared child is rewritten once.
\<close>

theorem visit_once_by_identity:
  assumes "update_refs fmt h (VRef rt) = Some (h', visited, trace, r)"
  shows "distinct trace \<and> set trace = visited \<and> visited \<subseteq> reach h rt \<and>
         (\<forall>b. b \<notin> visited \<longrightarrow> heap_get h' b = heap_get h b) \<and>
         ((\<forall>a \<in> reach h rt. \<forall>obj. heap_get h a = Some (ODict obj) \<longrightarrow>
             map_of obj ''$ref'' = None \<or>
             (\<exists>ref_path s. map_of obj ''$ref'' = Some (VStr ref_path) \<and>
                fmt (model_name ref_path) = Inr s)) \<longrightarrow>
          r = Inr ()) \<and>
         (r = Inr () \<longrightarrow>
            set trace = reach h rt \<and>
            (\<forall>b \<in> reach h rt. visit_of fmt (heap_get h b) (heap_get h' b)))"
proof (intro conjI impI ballI)
  show "distinct trace" "set trace = visited"
    using walk_trace[OF assms] by simp_all
  show "visited \<subseteq> reach h rt" by (rule walk_sound[OF assms])
  show "\<forall>b. b \<notin> visited \<longrightarrow> heap_get h' b = heap_get h b"
    using walk_frame[OF assms] by simp
next
  assume "\<forall>a \<in> reach h rt. \<forall>obj. heap_get h a = Some (ODict obj) \<longrightarrow>
             map_of obj ''$ref'' = None \<or>
             (\<exists>ref_path s. map_of obj ''$ref'' = Some (VStr ref_path) \<and>
                fmt (model_name ref_path) = Inr s)"
  with assms show "r = Inr ()" by (rule walk_succeeds)
next
  assume "r = Inr ()"
  with assms have ok: "update_refs fmt h (VRef rt) = Some (h', visited, trace, Inr ())"
    by simp
  show "set trace = reach h rt"
    using walk_trace[OF ok] walk_complete[OF ok] by simp
  fix b assume "b \<in> reach h rt"
  then show "visit_of fmt (heap_get h b) (heap_get h' b)"
    by (rule walk_rewritten[OF ok])
qed

lemma shared_run:
  "update_refs (str_format ''{model}/x'') shared_heap (VRef 0)
   = Some ([ODict [(''left'', VRef 1), (''right'', VRef 2), (''twin'', VRef 4)],
            ODict [(''items'', VRef 3)],
            ODict [(''items'', VRef 3)],
            ODict [(''$ref'', VStr ''Foo/x'')],
            ODict [(''$ref'', VStr ''Foo/x'')]],
           {0, 1, 2, 3, 4}, [0, 4, 2, 3, 1], Inr ())"
  by (simp add: shared_heap_def eval_defs insert_commute)

theorem visit_once_by_identity_witness:
  "update_refs (str_format ''{model}/x'') shared_heap (VRef 0)
   = Some ([ODict [(''left'', VRef 1), (''right'', VRef 2), (''twin'', VRef 4)],
            ODict [(''items'', VRef 3)],
            ODict [(''items'', VRef 3)],
            ODict [(''$ref'', VStr ''Foo/x'')],
            ODict [(''$ref'', VStr ''Foo/x'')]],
           {0, 1, 2, 3, 4}, [0, 4, 2, 3, 1], Inr ()) \<and>
   reach shared_heap 0 = {0, 1, 2, 3, 4} \<and>
   heap_get shared_heap 3 = heap_get shared_heap 4 \<and>
   heap_get shared_heap 1 = heap_get shared_heap 2 \<and>
   rewrite_ref (str_format ''{model}/x'') [(''$ref'', VStr ''#/defs/Foo'')] = Inr [(''$ref'', VStr ''Foo/x'')] \<and>
   rewrite_ref (str_format ''{model}/x'') [(''$ref'', VStr ''Foo/x'')] = Inr [(''$ref'', VStr ''x/x'')]"
proof -
  from visit_once_by_identity[OF shared_run]
  have "set [0, 4, 2, 3, 1] = reach shared_heap 0" by blast
  moreover have "set [0, 4, 2, 3, 1] = {0, 1, 2, 3, 4::nat}" by auto
  ultimately have "reach shared_heap 0 = {0, 1, 2, 3, 4}" by simp
  then show ?thesis
    using shared_run
    by (simp add: heap_get_def shared_heap_def rewrite_ref_def model_name_def lookup_field_def
        plain_field_def is_digit_def)
qed

text \<open>
  A \<^verbatim>\<open>"$ref"\<close> that is not a string is not tolerated: \<^verbatim>\<open>ref_path.split\<close> raises
  \<^verbatim>\<open>AttributeError\<close>.
\<close>

theorem non_string_ref_raises:
  "update_refs (str_format ''provider/{model}'') [ODict [(''$ref'', VInt 5)]] (VRef 0)
   = Some ([ODict [(''$ref'', VInt 5)]], {0}, [0], Inl AttributeError)"
  by (simp add: eval_defs)

text \<open>
  C6, as the code has it: \<^verbatim>\<open>update_refs\<close> returns without an exception exactly when
  every mapping node reachable from the root either has no \<^verbatim>\<open>"$ref"\<close> or has a string
  there whose last segment the template formats. A string without \<^verbatim>\<open>/\<close> is
  tolerated: it is its own last segment. A schema that is an atom is left alone.
\<close>

theorem rewrite_succeeds_iff:
  "((\<exists>h' visited trace. update_refs fmt h (VRef rt) = Some (h', visited, trace, Inr ()))
    \<longleftrightarrow>
    (\<forall>a \<in> reach h rt. \<forall>obj. heap_get h a = Some (ODict obj) \<longrightarrow>
       map_of obj ''$ref'' = None \<or>
       (\<exists>ref_path s. map_of obj ''$ref'' = Some (VStr ref_path) \<and>
          fmt (model_name ref_path) = Inr s))) \<and>
   (\<forall>ref_path. CHR ''/'' \<notin> set ref_path \<longrightarrow> model_name ref_path = ref_path) \<and>
   (\<forall>schema. (\<forall>a. schema \<noteq> VRef a) \<longrightarrow> update_refs fmt h schema = Some (h, {}, [], Inr ()))"
proof (intro conjI iffI ballI allI impI)
  fix a obj
  assume "\<exists>h' visited trace. update_refs fmt h (VRef rt) = Some (h', visited, trace, Inr ())"
    and a: "a \<in> reach h rt" and obj: "heap_get h a = Some (ODict obj)"
  then obtain h' visited trace where
    run: "update_refs fmt h (VRef rt) = Some (h', visited, trace, Inr ())" by blast
  from walk_rewritten[OF run a] obj have "\<exists>obj'. rewrite_ref fmt obj = Inr obj'"
    by (auto simp: visit_of_def)
  then show "map_of obj ''$ref'' = None \<or>
       (\<exists>ref_path s. map_of obj ''$ref'' = Some (VStr ref_path) \<and>
          fmt (model_name ref_path) = Inr s)"
    by (simp add: rewrite_ref_Inr_iff)
next
  assume good: "\<forall>a \<in> reach h rt. \<forall>obj. heap_get h a = Some (ODict obj) \<longrightarrow>
       map_of obj ''$ref'' = None \<or>
       (\<exists>ref_path s. map_of obj ''$ref'' = Some (VStr ref_path) \<and>
          fmt (model_name ref_path) = Inr s)"
  obtain h' visited trace r where
    run: "update_refs fmt h (VRef rt) = Some (h', visited, trace, r)"
    using loop_returns[of fmt h "[(rt, [])]" "{}" "[]"]
    by (auto simp: update_refs_def)
  have "r = Inr ()"
  proof (cases r)
    case (Inl e)
    from walk_error_source[OF run[unfolded Inl]] obtain b obj where
      "b \<in> reach h rt" "heap_get h b = Some (ODict obj)" "rewrite_ref fmt obj = Inl e"
      by blast
    moreover from this good have "\<exists>obj'. rewrite_ref fmt obj = Inr obj'"
      unfolding rewrite_ref_Inr_iff by blast
    ultimately show ?thesis by simp
  next
    case (Inr u)
    then show ?thesis by simp
  qed
  with run show "\<exists>h' visited trace.
      update_refs fmt h (VRef rt) = Some (h', visited, trace, Inr ())"
    by blast
next
  fix ref_path :: string
  assume "CHR ''/'' \<notin> set ref_path"
  then show "model_name ref_path = ref_path" by (rule model_name_no_slash)
next
  fix schema
  assume "\<forall>a. schema \<noteq> VRef a"
  then show "update_refs fmt h schema = Some (h, {}, [], Inr ())"
    by (cases schema) (simp_all add: update_refs_def)
qed

theorem rewrite_succeeds_iff_witness:
  "(\<exists>h' visited trace.
      update_refs (str_format ''provider/{model}'') [ODict [(''$ref'', VStr ''Foo''), (''type'', VStr ''object'')]]
        (VRef 0) = Some (h', visited, trace, Inr ())) \<and>
   model_name ''Foo'' = ''Foo'' \<and>
   reach [ODict [(''$ref'', VStr ''Foo''), (''type'', VStr ''object'')]] 0 = {0}"
proof -
  let ?h = "[ODict [(''$ref'', VStr ''Foo''), (''type'', VStr ''object'')]]"
  have r: "reach ?h 0 = {0}"
    by (rule reach_no_edges) (simp add: edges_def heap_get_def)
  have slash: "CHR ''/'' \<notin> set ''Foo''" by simp
  have good: "\<forall>a \<in> reach ?h 0. \<forall>obj. heap_get ?h a = Some (ODict obj) \<longrightarrow>
       map_of obj ''$ref'' = None \<or>
       (\<exists>ref_path s. map_of obj ''$ref'' = Some (VStr ref_path) \<and>
          str_format ''provider/{model}'' (model_name ref_path) = Inr s)"
    unfolding r by (simp add: heap_get_def lookup_field_def plain_field_def is_digit_def)
  from rewrite_succeeds_iff[of "str_format ''provider/{model}''" ?h 0] good slash r
  show ?thesis by blast
qed

section \<open>The deep copy\<close>

text \<open>
  The copy leaves the old addresses as they are; the object at \<open>a + length h\<close> is the
  object at \<open>a\<close> with its references moved, so that edges, reachability and subscripts
  in the copy mirror those of the original.
\<close>

lemma heap_get_append_old: "a < length h \<Longrightarrow> heap_get (h @ xs) a = heap_get h a"
  by (simp add: heap_get_def nth_append)

lemma heap_get_copy:
  "heap_get (h @ map (shift_obj (length h)) h) (a + length h)
   = map_option (shift_obj (length h)) (heap_get h a)"
  by (simp add: heap_get_def nth_append)

lemma ref_addrs_shift: "ref_addrs (map (shift_val n) vs) = map (\<lambda>b. b + n) (ref_addrs vs)"
  by (induction vs) (auto split: pyval.splits)

lemma members_shift: "members (shift_obj n obj) = map (shift_val n) (members obj)"
  by (cases obj) (simp_all add: comp_def case_prod_unfold)

lemma edges_copy:
  "edges (h @ map (shift_obj (length h)) h) (a + length h) = (\<lambda>b. b + length h) ` edges h a"
  by (cases "heap_get h a") (simp_all add: edges_def heap_get_copy members_shift ref_addrs_shift)

lemma reach_copy_up:
  "b \<in> reach h s \<Longrightarrow>
   b + length h \<in> reach (h @ map (shift_obj (length h)) h) (s + length h)"
proof (induction rule: reach.induct)
  case root
  show ?case by (rule reach.root)
next
  case (step a c)
  from step.hyps(2) have "c + length h \<in> edges (h @ map (shift_obj (length h)) h) (a + length h)"
    by (simp add: edges_copy)
  with step.IH show ?case by (rule reach.step)
qed

lemma reach_copy_down:
  "b \<in> reach (h @ map (shift_obj (length h)) h) (s + length h) \<Longrightarrow>
   b \<in> (\<lambda>b. b + length h) ` reach h s"
proof (induction rule: reach.induct)
  case root
  show ?case by (auto intro: reach.root)
next
  case (step a b)
  then obtain a0 where a0: "a0 \<in> reach h s" "a = a0 + length h" by auto
  with step.hyps(2) obtain b0 where "b0 \<in> edges h a0" "b = b0 + length h"
    by (auto simp: edges_copy)
  with a0 show ?case by (auto intro: reach.step)
qed

lemma reach_copy:
  "reach (h @ map (shift_obj (length h)) h) (s + length h) = (\<lambda>b. b + length h) ` reach h s"
  by (auto dest: reach_copy_down intro: reach_copy_up)

lemma map_of_shift:
  "map_of (map (\<lambda>(k, v). (k, shift_val n v)) obj) k = map_option (shift_val n) (map_of obj k)"
  by (induction obj) auto

lemma py_subscript_copy:
  "py_subscript (h @ map (shift_obj (length h)) h) (shift_val (length h) x) k
   = map_sum id (shift_val (length h)) (py_subscript h x k)"
proof (cases x)
  case (VRef a)
  show ?thesis
  proof (cases "heap_get h a")
    case None
    then show ?thesis by (simp add: VRef py_subscript_def heap_get_copy)
  next
    case (Some ob)
    then show ?thesis
      by (cases ob) (auto simp: VRef py_subscript_def heap_get_copy map_of_shift split: option.splits)
  qed
qed (simp_all add: py_subscript_def)

lemma py_get_json_schema:
  "py_get h x ''type'' = Inr ty \<Longrightarrow> \<exists>m obj. x = VRef m \<and> heap_get h m = Some (ODict obj)"
  by (auto simp: py_get_def split: pyval.splits option.splits pyobj.splits)

section \<open>The normalizer on a mapping\<close>

text \<open>The helper, once the template is there and the type is \<^verbatim>\<open>"json_schema"\<close>.\<close>

lemma helper_rewrite_branch:
  assumes "py_get h (VRef m) ''type'' = Inr (VStr ''json_schema'')"
  shows "dict_to_response_format_helper format h (VRef m) (Some t) =
     (case py_subscript h (VRef m) ''json_schema'' of
        Inl e \<Rightarrow> Some (h @ map (shift_obj (length h)) h, Inl e)
      | Inr js \<Rightarrow>
          (case py_subscript h js ''schema'' of
             Inl e \<Rightarrow> Some (h @ map (shift_obj (length h)) h, Inl e)
           | Inr schema \<Rightarrow>
               (case update_refs (format t) (h @ map (shift_obj (length h)) h)
                       (shift_val (length h) schema) of
                  None \<Rightarrow> None
                | Some (h2, visited, trace, Inl e) \<Rightarrow> Some (h2, Inl e)
                | Some (h2, visited, trace, Inr u) \<Rightarrow> Some (h2, Inr (VRef (m + length h))))))"
proof -
  let ?h1 = "h @ map (shift_obj (length h)) h"
  have a: "py_subscript ?h1 (VRef (m + length h)) ''json_schema''
      = map_sum id (shift_val (length h)) (py_subscript h (VRef m) ''json_schema'')"
    using py_subscript_copy[of h "VRef m"] by simp
  have b: "py_subscript ?h1 (shift_val (length h) js) ''schema''
      = map_sum id (shift_val (length h)) (py_subscript h js ''schema'')" for js
    by (rule py_subscript_copy)
  show ?thesis
    using assms
    by (cases "py_subscript h (VRef m) ''json_schema''";
        cases "py_subscript h (projr (py_subscript h (VRef m) ''json_schema'')) ''schema''")
       (simp_all add: dict_to_response_format_helper_def deepcopy_def a b)
qed

lemma update_refs_frame:
  assumes "update_refs fmt h schema = Some (h', visited, trace, r)"
  shows "length h' = length h"
    and "\<And>rt b. schema = VRef rt \<Longrightarrow> b \<notin> reach h rt \<Longrightarrow> heap_get h' b = heap_get h b"
    and "(\<forall>rt. schema \<noteq> VRef rt) \<Longrightarrow> h' = h"
proof -
  show "length h' = length h"
    using assms walk_frame[of fmt h _ h' visited trace r]
    by (cases schema) (auto simp: update_refs_def)
  show "heap_get h' b = heap_get h b" if "schema = VRef rt" "b \<notin> reach h rt" for rt b
    using assms that walk_frame[of fmt h rt h' visited trace r] walk_sound[of fmt h rt h' visited trace r]
    by auto
  show "h' = h" if "\<forall>rt. schema \<noteq> VRef rt"
    using assms that by (cases schema) (auto simp: update_refs_def)
qed

lemma update_refs_copy_frame:
  assumes "update_refs fmt (h @ map (shift_obj (length h)) h) (shift_val (length h) schema)
             = Some (h2, visited, trace, r)"
  shows "length h2 = 2 * length h \<and> (\<forall>a. a < length h \<longrightarrow> heap_get h2 a = heap_get h a)"
proof (cases schema)
  case (VRef s)
  let ?h1 = "h @ map (shift_obj (length h)) h"
  from assms VRef have run: "update_refs fmt ?h1 (VRef (s + length h)) = Some (h2, visited, trace, r)"
    by simp
  have "heap_get h2 a = heap_get h a" if "a < length h" for a
  proof -
    from that have "a \<notin> reach ?h1 (s + length h)" by (auto simp: reach_copy)
    with update_refs_frame(2)[OF run] have "heap_get h2 a = heap_get ?h1 a" by simp
    with that show ?thesis by (simp add: heap_get_append_old)
  qed
  with update_refs_frame(1)[OF run] show ?thesis by simp
qed (use assms in \<open>auto simp: update_refs_def heap_get_append_old\<close>)

lemma visit_of_edges:
  assumes "visit_of fmt (heap_get h b) (heap_get h' b)"
  shows "edges h' b = edges h b"
proof (cases "heap_get h b")
  case None
  with assms show ?thesis by (simp add: visit_of_def edges_def)
next
  case (Some ob)
  with assms show ?thesis
    by (cases ob) (auto simp: visit_of_def edges_def rewrite_ref_refs)
qed

lemma walk_reach:
  assumes "update_refs fmt h (VRef rt) = Some (h', visited, trace, Inr ())"
  shows "reach h' x = reach h x"
proof (rule reach_cong)
  fix b
  show "edges h' b = edges h b"
  proof (cases "b \<in> reach h rt")
    case True
    from walk_rewritten[OF assms True] show ?thesis by (rule visit_of_edges)
  next
    case False
    with walk_frame[OF assms] walk_complete[OF assms] have "heap_get h' b = heap_get h b" by simp
    then show ?thesis by (simp add: edges_def)
  qed
qed

lemma example_run:
  "dict_to_response_format_helper str_format example_heap (VRef 0) (Some ''provider/{model}'')
     = Some (example_heap @
               [ODict [(''type'', VStr ''json_schema''), (''json_schema'', VRef 4)],
                ODict [(''schema'', VRef 5)],
                ODict [(''$ref'', VStr ''provider/Foo'')]],
             Inr (VRef 3))"
  by (simp add: dict_to_response_format_helper_def
      py_get_def py_subscript_def deepcopy_def example_heap_def eval_defs)

text \<open>
  The value returned need not differ from the input at the \<^verbatim>\<open>"$ref"\<close> field. The
  template \<^verbatim>\<open>{model}\<close> rewrites the reference \<^verbatim>\<open>Foo\<close> to \<^verbatim>\<open>Foo\<close>; and a
  mapping with a \<^verbatim>\<open>"$ref"\<close> whose type is not \<^verbatim>\<open>"json_schema"\<close> is returned as it
  is, the same object, with nothing rewritten.
\<close>

theorem copy_may_equal_input:
  "type_to_response_format_param str_format fixed_point_heap (RFDict 0) (Some ''{model}'')
     = Some (fixed_point_heap @
               [ODict [(''type'', VStr ''json_schema''), (''json_schema'', VRef 4)],
                ODict [(''schema'', VRef 5)],
                ODict [(''$ref'', VStr ''Foo'')]],
             Inr (VRef 3)) \<and>
   heap_get fixed_point_heap 2 = Some (ODict [(''$ref'', VStr ''Foo'')]) \<and>
   type_to_response_format_param str_format [ODict [(''$ref'', VStr ''#/defs/Foo'')]] (RFDict 0)
       (Some ''provider/{model}'')
     = Some ([ODict [(''$ref'', VStr ''#/defs/Foo'')]], Inr (VRef 0))"
  by (simp add: type_to_response_format_param_def dict_to_response_format_helper_def
      py_get_def py_subscript_def deepcopy_def fixed_point_heap_def eval_defs)

text \<open>
  C1, as the code has it: whatever the response format and the template, and whether the
  call returns a value or raises, every object that existed before the call is afterwards
  what it was. When a template is supplied and the type is \<^verbatim>\<open>"json_schema"\<close>, a
  returned value is a new object from which no object of the input can be reached, and
  for every mapping node \<open>a\<close> reachable from the input's schema with a string
  \<^verbatim>\<open>"$ref"\<close>, its copy holds under \<^verbatim>\<open>"$ref"\<close> the template formatted with the last
  segment, while \<open>a\<close> itself still holds the old value. Whether the two differ depends on
  the template.
\<close>

theorem input_not_mutated:
  assumes "dict_to_response_format_helper format h response_format ref_template = Some (h', result)"
  shows "length h \<le> length h' \<and>
     (\<forall>a. a < length h \<longrightarrow> heap_get h' a = heap_get h a) \<and>
     (\<forall>t v. ref_template = Some t \<longrightarrow>
        py_get h response_format ''type'' = Inr (VStr ''json_schema'') \<longrightarrow>
        result = Inr v \<longrightarrow>
        (\<exists>m. response_format = VRef m \<and> v = VRef (m + length h) \<and>
             (\<forall>b \<in> reach h' (m + length h). length h \<le> b)) \<and>
        (\<forall>js s a obj ref_path.
           py_subscript h response_format ''json_schema'' = Inr js \<longrightarrow>
           py_subscript h js ''schema'' = Inr (VRef s) \<longrightarrow>
           a \<in> reach h s \<longrightarrow> heap_get h a = Some (ODict obj) \<longrightarrow>
           map_of obj ''$ref'' = Some (VStr ref_path) \<longrightarrow>
           (\<exists>fs obj'. format t (model_name ref_path) = Inr fs \<and>
              heap_get h' (a + length h) = Some (ODict obj') \<and>
              map_of obj' ''$ref'' = Some (VStr fs) \<and>
              heap_get h' a = Some (ODict obj))))"
proof (cases "\<exists>t. ref_template = Some t \<and>
                  py_get h response_format ''type'' = Inr (VStr ''json_schema'')")
  case False
  with assms have "h' = h"
    by (auto simp: dict_to_response_format_helper_def split: option.splits sum.splits if_splits)
  with False show ?thesis by auto
next
  case True
  then obtain t where t: "ref_template = Some t"
    and ty: "py_get h response_format ''type'' = Inr (VStr ''json_schema'')" by blast
  from py_get_json_schema[OF ty] obtain m where m: "response_format = VRef m" by blast
  let ?n = "length h"
  let ?h1 = "h @ map (shift_obj ?n) h"
  note unfold = helper_rewrite_branch[OF ty[unfolded m], of format t]
  have frame1: "heap_get ?h1 a = heap_get h a" if "a < ?n" for a
    using that by (rule heap_get_append_old)
  show ?thesis
  proof (cases "py_subscript h (VRef m) ''json_schema''")
    case (Inl e)
    with assms unfold have "h' = ?h1" "result = Inl e" by (simp_all add: m t)
    with frame1 show ?thesis by simp
  next
    case js: (Inr js)
    show ?thesis
    proof (cases "py_subscript h js ''schema''")
      case (Inl e)
      with assms unfold js have "h' = ?h1" "result = Inl e" by (simp_all add: m t)
      with frame1 show ?thesis by simp
    next
      case schema: (Inr schema)
      from assms unfold js schema obtain visited trace r where
        run: "update_refs (format t) ?h1 (shift_val ?n schema) = Some (h', visited, trace, r)"
        and res: "result = (case r of Inl e \<Rightarrow> Inl e | Inr u \<Rightarrow> Inr (VRef (m + ?n)))"
        by (auto simp: m t split: option.splits sum.splits)
      from update_refs_copy_frame[OF run]
      have len: "length h' = 2 * ?n" and old: "\<forall>a. a < ?n \<longrightarrow> heap_get h' a = heap_get h a"
        by simp_all
      have fresh: "\<forall>b \<in> reach h' (m + ?n). ?n \<le> b" if "r = Inr ()"
      proof (cases schema)
        case (VRef s)
        with run that have "update_refs (format t) ?h1 (VRef (s + ?n)) = Some (h', visited, trace, Inr ())"
          by simp
        from walk_reach[OF this] show ?thesis by (auto simp: reach_copy)
      next
        case VNone
        with run have "h' = ?h1" by (simp add: update_refs_def)
        then show ?thesis by (auto simp: reach_copy)
      next
        case (VBool x)
        with run have "h' = ?h1" by (simp add: update_refs_def)
        then show ?thesis by (auto simp: reach_copy)
      next
        case (VInt x)
        with run have "h' = ?h1" by (simp add: update_refs_def)
        then show ?thesis by (auto simp: reach_copy)
      next
        case (VStr x)
        with run have "h' = ?h1" by (simp add: update_refs_def)
        then show ?thesis by (auto simp: reach_copy)
      qed
      have rewritten: "\<exists>fs obj'. format t (model_name ref_path) = Inr fs \<and>
              heap_get h' (a + ?n) = Some (ODict obj') \<and>
              map_of obj' ''$ref'' = Some (VStr fs) \<and>
              heap_get h' a = Some (ODict obj)"
        if "r = Inr ()" "schema = VRef s" "a \<in> reach h s" "heap_get h a = Some (ODict obj)"
          "map_of obj ''$ref'' = Some (VStr ref_path)" for s a obj ref_path
      proof -
        from run that have ok: "update_refs (format t) ?h1 (VRef (s + ?n)) = Some (h', visited, trace, Inr ())"
          by simp
        from that(3) have "a + ?n \<in> reach ?h1 (s + ?n)" by (rule reach_copy_up)
        from walk_rewritten[OF ok this] that(4)
        obtain obj' where rw: "rewrite_ref (format t) (map (\<lambda>(k, v). (k, shift_val ?n v)) obj) = Inr obj'"
          and after: "heap_get h' (a + ?n) = Some (ODict obj')"
          by (auto simp: visit_of_def heap_get_copy)
        from that(5) have "map_of (map (\<lambda>(k, v). (k, shift_val ?n v)) obj) ''$ref''
            = Some (VStr ref_path)" by (simp add: map_of_shift)
        from rewrite_ref_string[OF rw this] obtain fs where
          "format t (model_name ref_path) = Inr fs"
          "obj' = dict_set ''$ref'' (VStr fs) (map (\<lambda>(k, v). (k, shift_val ?n v)) obj)"
          by blast
        moreover from that(4) have "a < ?n" by (simp add: heap_get_def split: if_splits)
        ultimately show ?thesis using after old that(4)
          by (auto simp: map_of_dict_set_same)
      qed
      have r_ok: "r = Inr ()" if "result = Inr v" for v
        using that res by (cases r) auto
      show ?thesis
      proof (intro conjI allI impI)
        show "length h \<le> length h'" using len by simp
        show "heap_get h' a = heap_get h a" if "a < length h" for a using old that by simp
        show "\<exists>m. response_format = VRef m \<and> v = VRef (m + length h) \<and>
             (\<forall>b \<in> reach h' (m + length h). length h \<le> b)" if "result = Inr v" for v
          using that res r_ok[OF that] fresh m by auto
        show "\<exists>fs obj'. format t' (model_name ref_path) = Inr fs \<and>
              heap_get h' (a + length h) = Some (ODict obj') \<and>
              map_of obj' ''$ref'' = Some (VStr fs) \<and>
              heap_get h' a = Some (ODict obj)"
          if "ref_template = Some t'" "result = Inr v"
            "py_subscript h response_format ''json_schema'' = Inr js'"
            "py_subscript h js' ''schema'' = Inr (VRef s)"
            "a \<in> reach h s" "heap_get h a = Some (ODict obj)"
            "map_of obj ''$ref'' = Some (VStr ref_path)" for t' v js' s a obj ref_path
        proof -
          from that(1) t have "t' = t" by simp
          moreover from that(3) js m have "js' = js" by simp
          moreover from this that(4) schema have "schema = VRef s" by simp
          ultimately show ?thesis
            using rewritten[OF r_ok[OF that(2)] _ that(5,6,7)] by simp
        qed
      qed
    qed
  qed
qed

theorem input_not_mutated_witness:
  "dict_to_response_format_helper str_format example_heap (VRef 0) (Some ''provider/{model}'')
     = Some (example_heap @
               [ODict [(''type'', VStr ''json_schema''), (''json_schema'', VRef 4)],
                ODict [(''schema'', VRef 5)],
                ODict [(''$ref'', VStr ''provider/Foo'')]],
             Inr (VRef 3)) \<and>
   heap_get (example_heap @
               [ODict [(''type'', VStr ''json_schema''), (''json_schema'', VRef 4)],
                ODict [(''schema'', VRef 5)],
                ODict [(''$ref'', VStr ''provider/Foo'')]]) 2
     = Some (ODict [(''$ref'', VStr ''#/defs/Foo'')]) \<and>
   str_format ''provider/{model}'' (model_name ''#/defs/Foo'') = Inr ''provider/Foo'' \<and>
   py_get example_heap (VRef 0) ''type'' = Inr (VStr ''json_schema'') \<and>
   py_subscript example_heap (VRef 0) ''json_schema'' = Inr (VRef 1) \<and>
   py_subscript example_heap (VRef 1) ''schema'' = Inr (VRef 2) \<and>
   2 \<in> reach example_heap 2"
proof -
  let ?H = "example_heap @
               [ODict [(''type'', VStr ''json_schema''), (''json_schema'', VRef 4)],
                ODict [(''schema'', VRef 5)],
                ODict [(''$ref'', VStr ''provider/Foo'')]]"
  have ty: "py_get example_heap (VRef 0) ''type'' = Inr (VStr ''json_schema'')"
    and js: "py_subscript example_heap (VRef 0) ''json_schema'' = Inr (VRef 1)"
    and sc: "py_subscript example_heap (VRef 1) ''schema'' = Inr (VRef 2)"
    and ob: "heap_get example_heap 2 = Some (ODict [(''$ref'', VStr ''#/defs/Foo'')])"
    by (simp_all add: py_get_def py_subscript_def heap_get_def example_heap_def)
  have rc: "2 \<in> reach example_heap 2" by (rule reach.root)
  have mo: "map_of [(''$ref'', VStr ''#/defs/Foo'')] ''$ref'' = Some (VStr ''#/defs/Foo'')"
    by simp
  note inner = input_not_mutated[OF example_run, THEN conjunct2, THEN conjunct2, rule_format,
      OF refl ty refl, THEN conjunct2, rule_format, OF js sc rc ob mo]
  then have "heap_get ?H 2 = Some (ODict [(''$ref'', VStr ''#/defs/Foo'')])" by blast
  moreover have "str_format ''provider/{model}'' (model_name ''#/defs/Foo'') = Inr ''provider/Foo''"
    by (simp add: model_name_def lookup_field_def plain_field_def is_digit_def)
  ultimately show ?thesis using example_run ty js sc rc by simp
qed

end
